theory Spec2Isabelle
  imports Complex_Main "HOL-Library.Sublist" "HOL-Library.AList"
begin

section \<open>Normalizer (SQL functions of the utility migration)\<close>

text \<open>
  Text values are byte strings; a nullable SQL \<open>text\<close> is a \<open>string option\<close>
  (\<open>None\<close> is SQL \<open>NULL\<close>).

  \<open>normalize_phone\<close> is \<open>regexp_replace(phone, '[^0-9]', '', 'g')\<close>: every character
  that is not an ASCII digit is deleted.
\<close>

definition is_digit :: "char \<Rightarrow> bool" where
  "is_digit c = (let n = (of_char c :: nat) in 48 \<le> n \<and> n \<le> 57)"

definition normalize_phone :: "string option \<Rightarrow> string option" where
  "normalize_phone phone =
     (case phone of None \<Rightarrow> None | Some p \<Rightarrow> Some (filter is_digit p))"

text \<open>
  SQL \<open>lower\<close> on ASCII letters, and SQL \<open>trim\<close>, which strips the space character
  (and nothing else) from both ends.
\<close>

definition lower_char :: "char \<Rightarrow> char" where
  "lower_char c =
     (let n = (of_char c :: nat) in if 65 \<le> n \<and> n \<le> 90 then char_of (n + 32) else c)"

definition lower :: "string \<Rightarrow> string" where
  "lower s = map lower_char s"

definition is_blank :: "char \<Rightarrow> bool" where
  "is_blank c = (c = CHR '' '')"

definition trim :: "string \<Rightarrow> string" where
  "trim s = rev (dropWhile is_blank (rev (dropWhile is_blank s)))"

text \<open>
  The generated column \<open>email_normalized\<close> of \<open>source_leads\<close> and \<open>fub_leads\<close> is
  \<open>lower(trim(email))\<close>.
\<close>

definition normalize_email :: "string option \<Rightarrow> string option" where
  "normalize_email email =
     (case email of None \<Rightarrow> None | Some e \<Rightarrow> Some (lower (trim e)))"

text \<open>
  \<open>normalize_address\<close> applies thirteen \<open>regexp_replace(result, '\bWORD\b', 'ABBR', 'g')\<close>
  in sequence and then \<open>regexp_replace(result, '\s+', ' ', 'g')\<close>.

  In PostgreSQL's advanced regular expressions the escape \<open>\b\<close> is the character-entry
  escape for backspace (code 8), as in C; the word-boundary escapes are \<open>\y\<close>, \<open>\m\<close> and
  \<open>\M\<close>. The function body is dollar-quoted and the patterns are ordinary string constants,
  so the backslash reaches the regular expression unchanged. Each of the thirteen patterns is
  therefore the literal string backspace, word, backspace; \<open>replace_all\<close> replaces its
  non-overlapping occurrences from left to right, as the flag \<open>g\<close> does.

  \<open>\s\<close> is the class of white space: space, tab, newline, vertical tab, form feed and
  carriage return. \<open>collapse_ws\<close> replaces every maximal run of them by one space.
\<close>

fun replace_all :: "string \<Rightarrow> string \<Rightarrow> string \<Rightarrow> string" where
  "replace_all pat rep [] = []"
| "replace_all pat rep (c # cs) =
     (if pat \<noteq> [] \<and> prefix pat (c # cs)
      then rep @ replace_all pat rep (drop (length pat - 1) cs)
      else c # replace_all pat rep cs)"

definition backspace :: char where
  "backspace = char_of (8 :: nat)"

definition word_pattern :: "string \<Rightarrow> string" where
  "word_pattern w = backspace # w @ [backspace]"

definition abbreviations :: "(string \<times> string) list" where
  "abbreviations =
     [(''street'', ''st''), (''avenue'', ''ave''), (''boulevard'', ''blvd''),
      (''drive'', ''dr''), (''road'', ''rd''), (''lane'', ''ln''), (''court'', ''ct''),
      (''apartment'', ''apt''), (''suite'', ''ste''), (''north'', ''n''),
      (''south'', ''s''), (''east'', ''e''), (''west'', ''w'')]"

definition is_space :: "char \<Rightarrow> bool" where
  "is_space c = (of_char c \<in> {9, 10, 11, 12, 13, 32 :: nat})"

function collapse_ws :: "string \<Rightarrow> string" where
  "collapse_ws [] = []"
| "collapse_ws (c # cs) =
     (if is_space c then CHR '' '' # collapse_ws (dropWhile is_space cs)
      else c # collapse_ws cs)"
  by pat_completeness auto
termination
  by (relation "measure length") (auto simp: less_Suc_eq_le length_dropWhile_le)

definition apply_abbreviations :: "string \<Rightarrow> string" where
  "apply_abbreviations s =
     foldl (\<lambda>r (w, ab). replace_all (word_pattern w) ab r) s abbreviations"

definition normalize_address :: "string option \<Rightarrow> string option" where
  "normalize_address addr =
     (case addr of
        None \<Rightarrow> None
      | Some a \<Rightarrow> Some (collapse_ws (apply_abbreviations (lower (trim a)))))"


section \<open>Tables\<close>

text \<open>
  Rows are records; a table is the list of its rows in insertion order. Identifiers
  (\<open>uuid\<close>, drawn by \<open>gen_random_uuid()\<close>) are natural numbers taken from one counter
  of the database, so no two rows of any tables share an identifier. Timestamps are natural
  numbers; the current time is an argument of every operation that reads the clock.
  Object-valued JSON columns (\<open>raw_data\<close>, \<open>field_mapping\<close>) are association lists in
  key order. \<open>numeric\<close> values are rationals. The columns \<open>embedding\<close>,
  \<open>embedding_text\<close> and \<open>embedded_at\<close> of the lead tables are kept together in
  \<open>embedding_columns\<close>, keyed by table name and row id.
\<close>

type_synonym uuid = nat
type_synonym timestamp = nat
type_synonym csv_row = "(string \<times> string) list"
type_synonym field_mapping = "(string \<times> string list) list"

record csv_config =
  delimiter :: string
  has_header :: bool
  skip_rows :: nat
  date_format :: "string option"

record validation_rules =
  required_fields :: "string list"
  email_regex :: "string option"

record lead_source =
  ls_id :: uuid
  ls_display_name :: string
  ls_csv_config :: "csv_config option"
  ls_field_mapping :: "field_mapping option"
  ls_validation_rules :: "validation_rules option"

datatype ingestion_status =
  IPending | IProcessing | IParsed | ITransforming | ICompleted | IFailed | IPartial

record log_entry =
  log_timestamp :: timestamp
  log_action :: string
  log_details :: "(string \<times> string) list"

record raw_ingestion =
  ri_id :: uuid
  ri_lead_source_id :: "uuid option"
  ri_organization_id :: "uuid option"
  ri_ingest_type :: string
  ri_file_name :: string
  ri_file_url :: string
  ri_file_hash :: string
  email_from :: "string option"
  email_subject :: "string option"
  email_received_at :: "timestamp option"
  ri_status :: ingestion_status
  total_rows :: "nat option"
  parsed_rows :: nat
  valid_rows :: nat
  duplicate_rows :: nat
  error_rows :: nat
  processing_log :: "log_entry list"
  ri_errors :: "log_entry list"
  ri_created_at :: timestamp

record raw_lead_row =
  rr_id :: uuid
  rr_ingestion_id :: uuid
  row_number :: nat
  rr_raw_data :: csv_row
  is_valid :: bool
  validation_errors :: "string list"
  is_duplicate :: bool
  duplicate_of :: "uuid option"
  rr_source_lead_id :: "uuid option"

datatype match_status = MPending | Matched | Unmatched | Multiple | Review

text \<open>
  Of \<open>source_leads\<close> the model keeps the columns the pipeline reads or writes; the mapped
  name, city, state, zip, lead type and source-side id are carried together in
  \<open>sl_other_fields\<close>. \<open>email_normalized\<close> is the generated column, the two other
  normalized columns are filled by the normalization trigger.
\<close>

record source_lead =
  sl_id :: uuid
  raw_row_id :: "uuid option"
  sl_ingestion_id :: "uuid option"
  sl_lead_source_id :: uuid
  sl_organization_id :: uuid
  sl_email :: "string option"
  sl_email_normalized :: "string option"
  sl_phone :: "string option"
  sl_phone_normalized :: "string option"
  property_address :: "string option"
  property_address_normalized :: "string option"
  sl_other_fields :: "(string \<times> string option) list"
  source_created_at :: "timestamp option"
  sl_match_status :: match_status
  sl_match_confidence :: "rat option"
  matched_at :: "timestamp option"
  sl_raw_data :: csv_row

record fub_lead =
  fl_id :: uuid
  fl_organization_id :: uuid
  fl_email_normalized :: "string option"
  fl_phone_normalized :: "string option"
  address_normalized :: "string option"
  assigned_user_id :: "int option"

record agent =
  ag_id :: uuid
  team_id :: uuid
  fub_user_id :: "int option"

datatype lead_match_status = Active | Disputed | Invalidated

record lead_match =
  lm_id :: uuid
  lm_source_lead_id :: uuid
  lm_fub_lead_id :: uuid
  lm_match_type :: string
  lm_match_confidence :: rat
  lm_match_details :: "(string \<times> string) list"
  matched_by :: string
  matched_by_user_id :: "uuid option"
  attributed_agent_id :: "uuid option"
  attributed_team_id :: "uuid option"
  lm_status :: lead_match_status

datatype candidate_status = CPending | Approved | Rejected | Expired

record match_reason =
  mr_type :: string
  mr_field :: string
  mr_score :: rat
  mr_details :: "(string \<times> string) list"

record match_candidate =
  mc_id :: uuid
  mc_source_lead_id :: uuid
  mc_fub_lead_id :: uuid
  confidence_score :: rat
  match_reasons :: "match_reason list"
  mc_status :: candidate_status
  reviewed_by :: "uuid option"
  reviewed_at :: "timestamp option"
  lead_match_id :: "uuid option"

record lineage =
  dl_id :: uuid
  source_table :: string
  source_id :: uuid
  target_table :: string
  target_id :: uuid
  operation :: string
  transformation_type :: string
  performed_by :: string

datatype queue_status = QPending | QProcessing | QCompleted | QFailed

record embedding_queue_item =
  eq_id :: uuid
  table_name :: string
  record_id :: uuid
  text_to_embed :: string
  eq_status :: queue_status
  attempts :: nat
  last_error :: "string option"
  eq_embedding :: "string option"
  processed_at :: "timestamp option"
  eq_created_at :: timestamp

record db =
  lead_sources :: "lead_source list"
  raw_ingestions :: "raw_ingestion list"
  raw_lead_rows :: "raw_lead_row list"
  source_leads :: "source_lead list"
  fub_leads :: "fub_lead list"
  agents :: "agent list"
  lead_matches :: "lead_match list"
  match_candidates :: "match_candidate list"
  data_lineage :: "lineage list"
  embedding_queue :: "embedding_queue_item list"
  embedding_columns :: "((string \<times> uuid) \<times> string \<times> string \<times> timestamp) list"
  storage :: "(string \<times> string) list"
  next_uuid :: uuid

definition empty_db :: db where
  "empty_db = \<lparr> lead_sources = [], raw_ingestions = [], raw_lead_rows = [],
     source_leads = [], fub_leads = [], agents = [], lead_matches = [],
     match_candidates = [], data_lineage = [], embedding_queue = [],
     embedding_columns = [], storage = [],
     next_uuid = 0 \<rparr>"

text \<open>
  The PostgREST query \<open>.single()\<close> yields a row only when exactly one row matches.
  An \<open>update \<dots> .eq("id", x)\<close> rewrites the matching rows in place.
\<close>

definition single :: "'a list \<Rightarrow> 'a option" where
  "single rows = (case rows of [r] \<Rightarrow> Some r | _ \<Rightarrow> None)"

definition update_where :: "('a \<Rightarrow> bool) \<Rightarrow> ('a \<Rightarrow> 'a) \<Rightarrow> 'a list \<Rightarrow> 'a list" where
  "update_where p f rows = map (\<lambda>r. if p r then f r else r) rows"

datatype 'a response = Json 'a | ErrorResponse string nat

section \<open>CSV parser (edge function \<open>csv-parser\<close>)\<close>

text \<open>
  JavaScript's \<open>trim\<close> strips white space from both ends; \<open>value && value.trim() !== ""\<close>
  holds for a present, non-empty value that is not all white space.
\<close>

definition js_trim :: "string \<Rightarrow> string" where
  "js_trim s = rev (dropWhile is_space (rev (dropWhile is_space s)))"

definition has_value :: "string option \<Rightarrow> bool" where
  "has_value v = (case v of None \<Rightarrow> False | Some s \<Rightarrow> s \<noteq> [] \<and> js_trim s \<noteq> [])"

definition getDefaultFieldMapping :: field_mapping where
  "getDefaultFieldMapping =
     [(''email'', [''email'', ''Email'', ''EMAIL'', ''Consumer Email'', ''E-mail'']),
      (''phone'', [''phone'', ''Phone'', ''PHONE'', ''Consumer Phone'', ''Phone Number'']),
      (''first_name'', [''first_name'', ''First Name'', ''FirstName'', ''First'']),
      (''last_name'', [''last_name'', ''Last Name'', ''LastName'', ''Last'']),
      (''full_name'', [''name'', ''Name'', ''Full Name'', ''Consumer Name'']),
      (''address'', [''property_address'', ''Address'', ''Property Address'', ''Street Address'']),
      (''city'', [''city'', ''City'', ''Property City'']),
      (''state'', [''state'', ''State'', ''Property State'']),
      (''zip'', [''zip'', ''Zip'', ''ZIP'', ''Postal Code'', ''Zip Code'']),
      (''lead_type'', [''lead_type'', ''Type'', ''Inquiry Type'', ''Lead Type'']),
      (''source_lead_id'', [''id'', ''Lead ID'', ''lead_id'', ''ID'']),
      (''source_created_at'',
         [''created'', ''Created Date'', ''Date'', ''Inquiry Date'', ''Created At''])]"

text \<open>
  \<open>validateRow\<close>. The regular-expression engine is outside the repository: \<open>regex_test\<close>
  takes the configured pattern (\<open>None\<close> for the built-in default, which is also used for an
  empty pattern) and the text, and says whether the text matches.
\<close>

definition columns_for :: "field_mapping \<Rightarrow> string \<Rightarrow> string list" where
  "columns_for fieldMapping field =
     (case map_of fieldMapping field of None \<Rightarrow> [field] | Some cols \<Rightarrow> cols)"

definition validateRow ::
  "(string option \<Rightarrow> string \<Rightarrow> bool) \<Rightarrow> csv_row \<Rightarrow> field_mapping \<Rightarrow> validation_rules
     \<Rightarrow> bool \<times> string list" where
  "validateRow regex_test row fieldMapping validationRules =
     (let required_errors =
            concat (map (\<lambda>requiredField.
                      if list_ex (\<lambda>col. has_value (map_of row col))
                           (columns_for fieldMapping requiredField)
                      then []
                      else [''Missing required field: '' @ requiredField])
                    (required_fields validationRules));
          pattern = (if email_regex validationRules = Some [] then None
                     else email_regex validationRules);
          email_errors =
            (case find has_value (map (map_of row) (columns_for fieldMapping ''email'')) of
               Some (Some email) \<Rightarrow>
                 if regex_test pattern email then []
                 else [''Invalid email format: '' @ email]
             | _ \<Rightarrow> []);
          errors = required_errors @ email_errors
      in (errors = [], errors))"

text \<open>
  The request handler. Reading the file from storage and splitting it into records is done
  by the storage client and the standard CSV library; their outcome for the ingestion's file
  is the argument \<open>outcome\<close>. Database writes whose result the handler does not inspect are
  taken to succeed.
\<close>

datatype csv_outcome = DownloadFailed | ParseFailed string | Rows "csv_row list"

definition updateIngestionError ::
  "timestamp \<Rightarrow> uuid \<Rightarrow> string \<Rightarrow> raw_ingestion \<Rightarrow> db \<Rightarrow> db" where
  "updateIngestionError now ingestionId errorMessage ingestion d =
     d\<lparr>raw_ingestions :=
         update_where (\<lambda>r. ri_id r = ingestionId)
           (\<lambda>r. r\<lparr>ri_status := IFailed,
                  ri_errors := ri_errors ingestion @
                    [\<lparr>log_timestamp = now, log_action = ''error'',
                      log_details = [(''error'', errorMessage)]\<rparr>],
                  processing_log := processing_log ingestion @
                    [\<lparr>log_timestamp = now, log_action = ''error'',
                      log_details = [(''error'', errorMessage)]\<rparr>]\<rparr>)
           (raw_ingestions d)\<rparr>"

record parse_summary =
  ps_total_rows :: nat
  ps_valid_rows :: nat
  ps_error_rows :: nat

fun count_rows ::
  "(csv_row \<Rightarrow> bool \<times> string list) \<Rightarrow> csv_row list \<Rightarrow> nat \<Rightarrow> nat \<Rightarrow> nat \<times> nat" where
  "count_rows validate [] validCount errorCount = (validCount, errorCount)"
| "count_rows validate (row # rows) validCount errorCount =
     (if fst (validate row) then count_rows validate rows (validCount + 1) errorCount
      else count_rows validate rows validCount (errorCount + 1))"

definition make_raw_rows ::
  "(csv_row \<Rightarrow> bool \<times> string list) \<Rightarrow> uuid \<Rightarrow> nat \<Rightarrow> uuid \<Rightarrow> csv_row list
     \<Rightarrow> raw_lead_row list" where
  "make_raw_rows validate ingestion_id skip first_id rows =
     map (\<lambda>(i, row).
            \<lparr>rr_id = first_id + i, rr_ingestion_id = ingestion_id,
             row_number = i + 1 + skip, rr_raw_data = row,
             is_valid = fst (validate row), validation_errors = snd (validate row),
             is_duplicate = False, duplicate_of = None, rr_source_lead_id = None\<rparr>)
         (enumerate 0 rows)"

definition find_lead_source :: "db \<Rightarrow> raw_ingestion \<Rightarrow> lead_source option" where
  "find_lead_source d ingestion =
     (case ri_lead_source_id ingestion of
        None \<Rightarrow> None
      | Some sid \<Rightarrow> single (filter (\<lambda>s. ls_id s = sid) (lead_sources d)))"

definition configured_skip_rows :: "lead_source option \<Rightarrow> nat" where
  "configured_skip_rows leadSource =
     (case leadSource of
        None \<Rightarrow> 0
      | Some s \<Rightarrow> (case ls_csv_config s of None \<Rightarrow> 0 | Some c \<Rightarrow> skip_rows c))"

definition configured_field_mapping :: "lead_source option \<Rightarrow> field_mapping" where
  "configured_field_mapping leadSource =
     (case leadSource of
        None \<Rightarrow> getDefaultFieldMapping
      | Some s \<Rightarrow>
          (case ls_field_mapping s of None \<Rightarrow> getDefaultFieldMapping | Some m \<Rightarrow> m))"

definition configured_validation_rules :: "lead_source option \<Rightarrow> validation_rules" where
  "configured_validation_rules leadSource =
     (case leadSource of
        None \<Rightarrow> \<lparr>required_fields = [''email''], email_regex = None\<rparr>
      | Some s \<Rightarrow>
          (case ls_validation_rules s of
             None \<Rightarrow> \<lparr>required_fields = [''email''], email_regex = None\<rparr>
           | Some v \<Rightarrow> v))"

definition set_ingestion :: "uuid \<Rightarrow> (raw_ingestion \<Rightarrow> raw_ingestion) \<Rightarrow> db \<Rightarrow> db" where
  "set_ingestion ingestion_id f d =
     d\<lparr>raw_ingestions := update_where (\<lambda>r. ri_id r = ingestion_id) f (raw_ingestions d)\<rparr>"

definition parse_rows ::
  "(string option \<Rightarrow> string \<Rightarrow> bool) \<Rightarrow> timestamp \<Rightarrow> raw_ingestion \<Rightarrow> lead_source option
     \<Rightarrow> csv_row list \<Rightarrow> uuid \<Rightarrow> db \<Rightarrow> parse_summary response \<times> db" where
  "parse_rows regex_test now ingestion leadSource rows ingestion_id d1 =
     (let d2 = set_ingestion ingestion_id (\<lambda>r. r\<lparr>total_rows := Some (length rows)\<rparr>) d1;
          validate = (\<lambda>row. validateRow regex_test row (configured_field_mapping leadSource)
                              (configured_validation_rules leadSource));
          counts = count_rows validate rows 0 0;
          rawRows = make_raw_rows validate ingestion_id (configured_skip_rows leadSource)
                      (next_uuid d2) rows;
          d3 = d2\<lparr>raw_lead_rows := raw_lead_rows d2 @ rawRows,
                  next_uuid := next_uuid d2 + length rows\<rparr>;
          d4 = set_ingestion ingestion_id
                 (\<lambda>r. r\<lparr>ri_status := IParsed,
                        parsed_rows := length rows,
                        valid_rows := fst counts,
                        error_rows := snd counts,
                        processing_log := processing_log ingestion @
                          [\<lparr>log_timestamp = now, log_action = ''parsing_completed'',
                            log_details = []\<rparr>]\<rparr>) d3
      in (Json \<lparr>ps_total_rows = length rows, ps_valid_rows = fst counts,
                ps_error_rows = snd counts\<rparr>, d4))"

definition parse_outcome ::
  "(string option \<Rightarrow> string \<Rightarrow> bool) \<Rightarrow> timestamp \<Rightarrow> csv_outcome \<Rightarrow> raw_ingestion
     \<Rightarrow> uuid \<Rightarrow> db \<Rightarrow> parse_summary response \<times> db" where
  "parse_outcome regex_test now outcome ingestion ingestion_id d1 =
     (case outcome of
        DownloadFailed \<Rightarrow>
          (ErrorResponse ''Failed to download file'' 500,
           updateIngestionError now ingestion_id ''Failed to download file'' ingestion d1)
      | ParseFailed msg \<Rightarrow>
          (ErrorResponse ''Failed to parse CSV'' 500,
           updateIngestionError now ingestion_id (''CSV parse error: '' @ msg) ingestion d1)
      | Rows rows \<Rightarrow>
          parse_rows regex_test now ingestion (find_lead_source d1 ingestion) rows
            ingestion_id d1)"

definition csv_parser ::
  "(string option \<Rightarrow> string \<Rightarrow> bool) \<Rightarrow> timestamp \<Rightarrow> csv_outcome \<Rightarrow> uuid \<Rightarrow> db
     \<Rightarrow> parse_summary response \<times> db" where
  "csv_parser regex_test now outcome ingestion_id d =
     (case single (filter (\<lambda>r. ri_id r = ingestion_id) (raw_ingestions d)) of
        None \<Rightarrow> (ErrorResponse ''Ingestion not found'' 404, d)
      | Some ingestion \<Rightarrow>
          parse_outcome regex_test now outcome ingestion ingestion_id
            (set_ingestion ingestion_id
               (\<lambda>r. r\<lparr>ri_status := IProcessing,
                      processing_log := processing_log ingestion @
                        [\<lparr>log_timestamp = now, log_action = ''parsing_started'',
                          log_details = []\<rparr>]\<rparr>) d))"

text \<open>
  The handler's built-in pattern \<open>/^[^\s@]+@[^\s@]+\.[^\s@]+$/\<close>, as an instance of
  \<open>regex_test\<close> for sources without a pattern of their own: no white space, exactly one
  \<open>@\<close> with text before it, and after it a dot that is neither first nor last.
\<close>

definition default_email_regex :: "string option \<Rightarrow> string \<Rightarrow> bool" where
  "default_email_regex pattern s =
     (let local_part = takeWhile (\<lambda>c. c \<noteq> CHR ''@'') s;
          rest = dropWhile (\<lambda>c. c \<noteq> CHR ''@'') s
      in local_part \<noteq> [] \<and> rest \<noteq> [] \<and> CHR ''@'' \<notin> set (tl rest) \<and>
         \<not> list_ex is_space s \<and> list_ex (\<lambda>c. c = CHR ''.'') (butlast (tl (tl rest))))"

definition counters :: "raw_ingestion \<Rightarrow> nat option \<times> nat \<times> nat \<times> nat" where
  "counters r = (total_rows r, parsed_rows r, valid_rows r, error_rows r)"

definition new_ingestion :: "uuid \<Rightarrow> string \<Rightarrow> string \<Rightarrow> timestamp \<Rightarrow> raw_ingestion" where
  "new_ingestion i name hash now =
     \<lparr>ri_id = i, ri_lead_source_id = None, ri_organization_id = None,
      ri_ingest_type = ''email'', ri_file_name = name,
      ri_file_url = ''ingestions/'' @ name, ri_file_hash = hash, email_from = None,
      email_subject = None, email_received_at = None, ri_status = IPending,
      total_rows = None, parsed_rows = 0, valid_rows = 0, duplicate_rows = 0, error_rows = 0,
      processing_log = [], ri_errors = [], ri_created_at = now\<rparr>"

text \<open>A staged file with two data rows, the second without an email, and its parse.\<close>

definition staged_db :: db where
  "staged_db = empty_db\<lparr>raw_ingestions := [new_ingestion 0 ''leads.csv'' ''3f2a'' 1],
                         next_uuid := 1\<rparr>"

definition two_rows :: "csv_row list" where
  "two_rows = [ [(''Email'', ''John.Smith@Example.COM''), (''Phone'', ''5551234567'')],
               [(''Email'', ''''), (''Name'', ''Bob'')]]"

definition parsed_db :: db where
  "parsed_db = snd (csv_parser default_email_regex 5 (Rows two_rows) 0 staged_db)"

definition parsed_ingestion :: raw_ingestion where
  "parsed_ingestion = hd (raw_ingestions parsed_db)"

section \<open>Embedding queue worker (\<open>processEmbeddingQueue\<close>)\<close>

text \<open>
  The embedding provider is outside the repository: \<open>provider\<close> maps the batch of texts to
  the formatted vectors, or to \<open>Inl message\<close> when \<open>generateEmbeddings\<close> throws.
  The claim query selects pending items with \<open>attempts < maxAttempts\<close>, oldest first, at
  most \<open>batchSize\<close> of them.
\<close>

definition claim_items ::
  "nat \<Rightarrow> nat \<Rightarrow> embedding_queue_item list \<Rightarrow> embedding_queue_item list" where
  "claim_items batchSize maxAttempts queue =
     take batchSize
       (sort_key eq_created_at
          (filter (\<lambda>i. eq_status i = QPending \<and> attempts i < maxAttempts) queue))"

definition set_queue_item ::
  "uuid \<Rightarrow> (embedding_queue_item \<Rightarrow> embedding_queue_item) \<Rightarrow> db \<Rightarrow> db" where
  "set_queue_item item_id f d =
     d\<lparr>embedding_queue := update_where (\<lambda>r. eq_id r = item_id) f (embedding_queue d)\<rparr>"

definition revert_item :: "string \<Rightarrow> db \<Rightarrow> embedding_queue_item \<Rightarrow> db" where
  "revert_item message d item =
     set_queue_item (eq_id item)
       (\<lambda>r. r\<lparr>eq_status := QPending, attempts := attempts item + 1,
              last_error := Some message\<rparr>) d"

definition row_exists :: "db \<Rightarrow> string \<Rightarrow> uuid \<Rightarrow> bool" where
  "row_exists d tbl i =
     (if tbl = ''source_leads'' then i \<in> set (map sl_id (source_leads d))
      else if tbl = ''fub_leads'' then i \<in> set (map fl_id (fub_leads d))
      else False)"

definition write_embedding :: "timestamp \<Rightarrow> embedding_queue_item \<Rightarrow> string \<Rightarrow> db \<Rightarrow> db" where
  "write_embedding now item embedding d =
     (if row_exists d (table_name item) (record_id item)
      then d\<lparr>embedding_columns :=
               AList.update (table_name item, record_id item)
                 (embedding, text_to_embed item, now) (embedding_columns d)\<rparr>
      else d)"

text \<open>
  One turn of the per-record loop. The inner \<open>try\<close> fails when the provider returned no
  vector at this index (formatting \<open>undefined\<close> throws a \<open>TypeError\<close>, whose message is
  stored) or when the target table cannot be updated (only \<open>source_leads\<close> and
  \<open>fub_leads\<close> carry the three columns; the error object of the client is not an
  \<open>Error\<close>, so \<open>Unknown error\<close> is stored). An update that matches no row is no error.
\<close>

definition embed_item ::
  "timestamp \<Rightarrow> db \<times> nat \<times> nat \<Rightarrow> embedding_queue_item \<times> string option
     \<Rightarrow> db \<times> nat \<times> nat" where
  "embed_item now acc pair =
     (case acc of (d, processed, failed) \<Rightarrow>
        (case pair of
           (item, None) \<Rightarrow>
             (revert_item ''Cannot read properties of undefined'' d item, processed, failed + 1)
         | (item, Some embedding) \<Rightarrow>
             if table_name item \<noteq> ''source_leads'' \<and> table_name item \<noteq> ''fub_leads''
             then (revert_item ''Unknown error'' d item, processed, failed + 1)
             else (set_queue_item (eq_id item)
                     (\<lambda>r. r\<lparr>eq_status := QCompleted, eq_embedding := Some embedding,
                            processed_at := Some now\<rparr>)
                     (write_embedding now item embedding d),
                   processed + 1, failed)))"

definition processEmbeddingQueue ::
  "(string list \<Rightarrow> string + string list) \<Rightarrow> timestamp \<Rightarrow> nat \<Rightarrow> nat \<Rightarrow> db
     \<Rightarrow> (nat \<times> nat) \<times> db" where
  "processEmbeddingQueue provider now batchSize maxAttempts d =
     (let items = claim_items batchSize maxAttempts (embedding_queue d)
      in if items = [] then ((0, 0), d)
         else
           let d1 = d\<lparr>embedding_queue :=
                       update_where (\<lambda>r. eq_id r \<in> set (map eq_id items))
                         (\<lambda>r. r\<lparr>eq_status := QProcessing\<rparr>) (embedding_queue d)\<rparr>
           in case provider (map text_to_embed items) of
                Inl message \<Rightarrow> ((0, length items), foldl (revert_item message) d1 items)
              | Inr embeddings \<Rightarrow>
                  (case foldl (embed_item now) (d1, 0, 0)
                          (zip items (map Some embeddings @
                                      replicate (length items - length embeddings) None)) of
                     (d2, processed, failed) \<Rightarrow> ((processed, failed), d2)))"

text \<open>The worker endpoint: \<open>body.batch_size || 50\<close> and \<open>body.max_attempts || 3\<close>, then the
  queue statistics.\<close>

record worker_result =
  wr_processed :: nat
  wr_failed :: nat
  wr_pending_count :: nat
  wr_failed_count :: nat

definition js_or :: "nat option \<Rightarrow> nat \<Rightarrow> nat" where
  "js_or v dflt = (case v of None \<Rightarrow> dflt | Some n \<Rightarrow> if n = 0 then dflt else n)"

definition embedding_worker ::
  "(string list \<Rightarrow> string + string list) \<Rightarrow> timestamp \<Rightarrow> nat option \<Rightarrow> nat option \<Rightarrow> db
     \<Rightarrow> worker_result \<times> db" where
  "embedding_worker provider now batch_size max_attempts d =
     (case processEmbeddingQueue provider now (js_or batch_size 50) (js_or max_attempts 3) d of
        ((processed, failed), d') \<Rightarrow>
          (\<lparr>wr_processed = processed, wr_failed = failed,
            wr_pending_count = length (filter (\<lambda>r. eq_status r = QPending) (embedding_queue d')),
            wr_failed_count = length (filter (\<lambda>r. eq_status r = QFailed) (embedding_queue d'))\<rparr>,
           d'))"

text \<open>The effect of a list of reverts on one queue row, and the relation between two
  queues that differ at most in rows whose id is in a given set.\<close>

fun revert_all ::
  "string \<Rightarrow> embedding_queue_item list \<Rightarrow> embedding_queue_item \<Rightarrow> embedding_queue_item" where
  "revert_all m [] r = r"
| "revert_all m (it # its) r =
     revert_all m its
       (if eq_id r = eq_id it
        then r\<lparr>eq_status := QPending, attempts := attempts it + 1, last_error := Some m\<rparr>
        else r)"

definition touches_only ::
  "uuid set \<Rightarrow> embedding_queue_item list \<Rightarrow> embedding_queue_item list \<Rightarrow> bool" where
  "touches_only ids q q' =
     (\<exists>h. q' = map h q \<and> (\<forall>r. eq_id (h r) = eq_id r) \<and> (\<forall>r. eq_id r \<notin> ids \<longrightarrow> h r = r))"

text \<open>The state of a task after a whole-batch failure, and a queue with one task that has
  already failed twice, for a provider that is down.\<close>

definition reverted :: "string \<Rightarrow> embedding_queue_item \<Rightarrow> embedding_queue_item" where
  "reverted message t =
     t\<lparr>eq_status := QPending, attempts := attempts t + 1, last_error := Some message\<rparr>"

definition task_state :: "embedding_queue_item \<Rightarrow> queue_status \<times> nat" where
  "task_state t = (eq_status t, attempts t)"

definition provider_down :: "string list \<Rightarrow> string + string list" where
  "provider_down texts = Inl ''OpenAI API error: server error''"

definition tired_task :: embedding_queue_item where
  "tired_task = \<lparr>eq_id = 7, table_name = ''source_leads'', record_id = 3,
     text_to_embed = ''Lead from Zillow'', eq_status = QPending, attempts = 2,
     last_error = None, eq_embedding = None, processed_at = None, eq_created_at = 1\<rparr>"

definition tired_db :: db where
  "tired_db = empty_db\<lparr>embedding_queue := [tired_task], next_uuid := 8\<rparr>"

definition after_third_failure :: db where
  "after_third_failure = snd (embedding_worker provider_down 10 None None tired_db)"

definition after_fourth_run :: db where
  "after_fourth_run = snd (embedding_worker provider_down 20 None None after_third_failure)"

section \<open>Ingestion stager (edge function \<open>email-ingest\<close>)\<close>

text \<open>
  The parsed multipart form: the text fields, the optional \<open>attachment-info\<close> object
  (form key to file name and content type) and the form entries that are files.
  The hash function (SHA-256 over the encoded content, in hexadecimal), the clock's decimal
  rendering and the two look-ups that resolve the lead source from the recipient and the
  organization from the sender's domain are arguments; the look-ups only read.
  The base64 encoding applied to the file text and undone before the upload is left out:
  an attachment carries its bytes. A key of \<open>attachment-info\<close> that names no entry of the
  form contributes nothing. Inserts of batch rows are taken to succeed.
\<close>

record form_file =
  ff_name :: string
  ff_type :: string
  ff_text :: string

record email_form =
  form_to :: string
  form_from :: string
  form_subject :: string
  attachment_info :: "(string \<times> string \<times> string) list option"
  form_files :: "(string \<times> form_file) list"

record attachment =
  filename :: string
  content_type :: string
  content :: string

definition is_csv :: "string \<Rightarrow> string \<Rightarrow> bool" where
  "is_csv name type = (suffix ''.csv'' name \<or> type = ''text/csv'')"

definition csv_attachments :: "email_form \<Rightarrow> attachment list" where
  "csv_attachments form =
     (case attachment_info form of
        None \<Rightarrow> []
      | Some info \<Rightarrow>
          concat (map (\<lambda>(key, name, type).
                    case map_of (form_files form) key of
                      None \<Rightarrow> []
                    | Some file \<Rightarrow>
                        if is_csv name type
                        then [\<lparr>filename = name, content_type = type, content = ff_text file\<rparr>]
                        else [])
                  info))
     @ concat (map (\<lambda>(key, file).
                 if is_csv (ff_name file) (ff_type file)
                 then [\<lparr>filename = ff_name file, content_type = ff_type file,
                        content = ff_text file\<rparr>]
                 else [])
               (form_files form))"

record stager_env =
  computeHash :: "string \<Rightarrow> string"
  show_time :: "timestamp \<Rightarrow> string"
  lead_source_for :: "string \<Rightarrow> uuid option"
  organization_for :: "string \<Rightarrow> uuid option"

record ingest_result =
  ir_message :: string
  ingestion_ids :: "uuid list"
  parse_requests :: "uuid list"

text \<open>
  One turn of the loop over the attachments. An upload to a path that already holds an
  object fails; the handler logs that and goes on to insert the batch row.
\<close>

definition upload :: "string \<Rightarrow> string \<Rightarrow> db \<Rightarrow> db" where
  "upload path bytes d =
     (if path \<in> set (map fst (storage d)) then d else d\<lparr>storage := storage d @ [(path, bytes)]\<rparr>)"

definition create_ingestion ::
  "stager_env \<Rightarrow> timestamp \<Rightarrow> email_form \<Rightarrow> attachment \<Rightarrow> string \<Rightarrow> db \<Rightarrow> db \<times> uuid" where
  "create_ingestion env now form att fileHash d =
     (let storagePath = ''ingestions/'' @ show_time env now @ ''_'' @ filename att;
          d1 = upload storagePath (content att) d;
          ingestion =
            \<lparr>ri_id = next_uuid d1,
             ri_lead_source_id = lead_source_for env (form_to form),
             ri_organization_id = organization_for env (form_from form),
             ri_ingest_type = ''email'', ri_file_name = filename att,
             ri_file_url = storagePath, ri_file_hash = fileHash,
             email_from = Some (form_from form),
             email_subject = Some (form_subject form),
             email_received_at = Some now, ri_status = IPending,
             total_rows = None, parsed_rows = 0, valid_rows = 0,
             duplicate_rows = 0, error_rows = 0,
             processing_log =
               [\<lparr>log_timestamp = now, log_action = ''email_received'',
                 log_details = [(''from'', form_from form), (''to'', form_to form),
                                (''subject'', form_subject form)]\<rparr>],
             ri_errors = [], ri_created_at = now\<rparr>
      in (d1\<lparr>raw_ingestions := raw_ingestions d1 @ [ingestion],
              next_uuid := next_uuid d1 + 1\<rparr>,
          ri_id ingestion))"

definition stage_attachment ::
  "stager_env \<Rightarrow> timestamp \<Rightarrow> email_form \<Rightarrow> db \<times> uuid list \<Rightarrow> attachment \<Rightarrow> db \<times> uuid list" where
  "stage_attachment env now form acc att =
     (let d = fst acc; ingestions = snd acc; fileHash = computeHash env (content att)
      in case single (filter (\<lambda>r. ri_file_hash r = fileHash) (raw_ingestions d)) of
           Some existing \<Rightarrow> (d, ingestions)
         | None \<Rightarrow>
             (fst (create_ingestion env now form att fileHash d),
              ingestions @ [snd (create_ingestion env now form att fileHash d)]))"

definition email_ingest ::
  "stager_env \<Rightarrow> timestamp \<Rightarrow> email_form \<Rightarrow> db \<Rightarrow> ingest_result \<times> db" where
  "email_ingest env now form d =
     (let attachments = csv_attachments form
      in if attachments = []
         then (\<lparr>ir_message = ''Email received but no CSV attachments found'',
                 ingestion_ids = [], parse_requests = []\<rparr>, d)
         else case foldl (stage_attachment env now form) (d, []) attachments of
                (d', ingestions) \<Rightarrow>
                  (\<lparr>ir_message = ''Processed CSV attachment(s)'',
                    ingestion_ids = ingestions, parse_requests = ingestions\<rparr>, d'))"

text \<open>The file hashes of the batches on record.\<close>

definition hashes :: "db \<Rightarrow> string list" where
  "hashes d = map ri_file_hash (raw_ingestions d)"

text \<open>A stand-in environment and one email with one CSV file, received twice.\<close>

definition test_env :: stager_env where
  "test_env = \<lparr>computeHash = (\<lambda>bytes. ''sha256:'' @ bytes),
                show_time = (\<lambda>t. replicate t (CHR ''1'')),
                lead_source_for = (\<lambda>recipient. None),
                organization_for = (\<lambda>sender. None)\<rparr>"

definition zillow_mail :: email_form where
  "zillow_mail = \<lparr>form_to = ''leads@tge.example'', form_from = ''feed@zillow.example'',
     form_subject = ''Daily leads'',
     attachment_info = None,
     form_files = [(''attachment1'',
        \<lparr>ff_name = ''leads.csv'', ff_type = ''text/csv'',
         ff_text = ''Email,Phone''\<rparr>)]\<rparr>"

definition first_staging :: "ingest_result \<times> db" where
  "first_staging = email_ingest test_env 3 zillow_mail empty_db"

definition second_staging :: "ingest_result \<times> db" where
  "second_staging = email_ingest test_env 4 zillow_mail (snd first_staging)"

section \<open>Match scorer (SQL function \<open>find_fub_matches\<close>)\<close>

text \<open>
  \<open>similarity\<close> is the trigram similarity of the \<open>pg_trgm\<close> extension and is an
  argument of the scorer. A comparison with \<open>NULL\<close> is not true, so a signal needs both
  sides present. The three \<open>select\<close>s are concatenated in the order of the \<open>union all\<close>.
  The details of an address signal carry the two addresses; the similarity repeated there
  is left out. The limit is a natural number (the caller passes 5).
\<close>

record match_result =
  fub_lead_id :: uuid
  match_type :: string
  confidence :: rat
  match_details :: "(string \<times> string) list"

definition email_signals :: "source_lead \<Rightarrow> fub_lead list \<Rightarrow> match_result list" where
  "email_signals v_source fubs =
     map (\<lambda>f. \<lparr>fub_lead_id = fl_id f, match_type = ''email_exact'', confidence = 1,
               match_details =
                 [(''matched_email'', case sl_email_normalized v_source of
                                         None \<Rightarrow> [] | Some e \<Rightarrow> e)]\<rparr>)
       (filter (\<lambda>f. fl_organization_id f = sl_organization_id v_source \<and>
                     fl_email_normalized f = sl_email_normalized v_source \<and>
                     sl_email_normalized v_source \<noteq> None \<and>
                     sl_email_normalized v_source \<noteq> Some [])
               fubs)"

definition phone_signals :: "source_lead \<Rightarrow> fub_lead list \<Rightarrow> match_result list" where
  "phone_signals v_source fubs =
     map (\<lambda>f. \<lparr>fub_lead_id = fl_id f, match_type = ''phone_exact'', confidence = 95 / 100,
               match_details =
                 [(''matched_phone'', case sl_phone_normalized v_source of
                                         None \<Rightarrow> [] | Some p \<Rightarrow> p)]\<rparr>)
       (filter (\<lambda>f. fl_organization_id f = sl_organization_id v_source \<and>
                     fl_phone_normalized f = sl_phone_normalized v_source \<and>
                     (case sl_phone_normalized v_source of
                        None \<Rightarrow> False | Some p \<Rightarrow> 10 \<le> length p))
               fubs)"

definition address_similarity ::
  "(string \<Rightarrow> string \<Rightarrow> rat) \<Rightarrow> source_lead \<Rightarrow> fub_lead \<Rightarrow> rat option" where
  "address_similarity similarity v_source f =
     (case (address_normalized f, property_address_normalized v_source) of
        (Some fa, Some sa) \<Rightarrow> if sa \<noteq> [] \<and> fa \<noteq> [] then Some (similarity fa sa) else None
      | _ \<Rightarrow> None)"

definition address_signals ::
  "(string \<Rightarrow> string \<Rightarrow> rat) \<Rightarrow> source_lead \<Rightarrow> fub_lead list \<Rightarrow> match_result list" where
  "address_signals similarity v_source fubs =
     concat (map (\<lambda>f. if fl_organization_id f = sl_organization_id v_source
                       then (case address_similarity similarity v_source f of
                               None \<Rightarrow> []
                             | Some s \<Rightarrow>
                                 if s > 6 / 10
                                 then [\<lparr>fub_lead_id = fl_id f, match_type = ''address_fuzzy'',
                                        confidence = s,
                                        match_details =
                                          [(''source_address'',
                                            case property_address_normalized v_source of
                                              None \<Rightarrow> [] | Some a \<Rightarrow> a),
                                           (''fub_address'',
                                            case address_normalized f of
                                              None \<Rightarrow> [] | Some a \<Rightarrow> a)]\<rparr>]
                                 else [])
                       else [])
                 fubs)"

definition signals ::
  "(string \<Rightarrow> string \<Rightarrow> rat) \<Rightarrow> source_lead \<Rightarrow> fub_lead list \<Rightarrow> match_result list" where
  "signals similarity v_source fubs =
     email_signals v_source fubs @ phone_signals v_source fubs @
     address_signals similarity v_source fubs"

text \<open>
  \<open>select distinct on (fub_lead_id) \<dots> order by fub_lead_id, confidence desc limit n\<close>:
  the rows are ordered by CRM lead id and, within one id, by descending confidence; the first
  row of every id is kept; the first \<open>n\<close> of those are returned. PostgreSQL does not say
  which of several rows with equal id and equal confidence comes first; the model sorts
  stably, so that it is the earliest in the order of the \<open>union all\<close>.
\<close>

definition order_matches :: "match_result list \<Rightarrow> match_result list" where
  "order_matches ms = sort_key fub_lead_id (sort_key (\<lambda>m. - confidence m) ms)"

fun distinct_on :: "match_result list \<Rightarrow> match_result list" where
  "distinct_on [] = []"
| "distinct_on (m # ms) =
     m # distinct_on (filter (\<lambda>x. fub_lead_id x \<noteq> fub_lead_id m) ms)"

definition find_fub_matches ::
  "(string \<Rightarrow> string \<Rightarrow> rat) \<Rightarrow> db \<Rightarrow> uuid \<Rightarrow> nat \<Rightarrow> match_result list" where
  "find_fub_matches similarity d p_source_lead_id p_max_results =
     (case find (\<lambda>l. sl_id l = p_source_lead_id) (source_leads d) of
        None \<Rightarrow> []
      | Some v_source \<Rightarrow>
          take p_max_results
            (distinct_on (order_matches (signals similarity v_source (fub_leads d)))))"

text \<open>
  An instance of \<open>similarity\<close> after the documentation of \<open>pg_trgm\<close>: the text is
  lower-cased and cut into words of letters and digits, every word is padded with two
  spaces in front and one behind, and the similarity of two texts is the number of
  trigrams they share divided by the number of trigrams of either.
\<close>

definition is_alnum :: "char \<Rightarrow> bool" where
  "is_alnum c =
     (let n = (of_char c :: nat)
      in (48 \<le> n \<and> n \<le> 57) \<or> (65 \<le> n \<and> n \<le> 90) \<or> (97 \<le> n \<and> n \<le> 122))"

fun split_words :: "string \<Rightarrow> string \<Rightarrow> string list" where
  "split_words [] cur = (if cur = [] then [] else [cur])"
| "split_words (c # cs) cur =
     (if is_alnum c then split_words cs (cur @ [c])
      else (if cur = [] then [] else [cur]) @ split_words cs [])"

definition word_trigrams :: "string \<Rightarrow> string list" where
  "word_trigrams w =
     (let padded = ''  '' @ w @ '' ''
      in map (\<lambda>i. take 3 (drop i padded)) [0..<length padded - 2])"

definition trigrams :: "string \<Rightarrow> string list" where
  "trigrams s = remdups (concat (map word_trigrams (split_words (lower s) [])))"

definition trigram_similarity :: "string \<Rightarrow> string \<Rightarrow> rat" where
  "trigram_similarity a b =
     (let ta = trigrams a; tb = trigrams b;
          shared = length (filter (\<lambda>t. t \<in> set tb) ta);
          total = length ta + length tb - shared
      in if total = 0 then 0 else of_nat shared / of_nat total)"

section \<open>Matcher (\<open>matching.ts\<close> and edge function \<open>lead-matcher\<close>)\<close>

definition AUTO_MATCH :: rat where
  "AUTO_MATCH = 9 / 10"


definition REJECT_THRESHOLD :: rat where
  "REJECT_THRESHOLD = 4 / 10"

definition findMatches :: "(string \<Rightarrow> string \<Rightarrow> rat) \<Rightarrow> db \<Rightarrow> uuid \<Rightarrow> match_result list" where
  "findMatches similarity d sourceLeadId = find_fub_matches similarity d sourceLeadId 5"

text \<open>
  Every update of a \<open>source_leads\<close> row fires the trigger \<open>normalize_source_lead_fields\<close>.
\<close>

definition normalize_source_lead_fields :: "source_lead \<Rightarrow> source_lead" where
  "normalize_source_lead_fields l =
     l\<lparr>sl_phone_normalized := normalize_phone (sl_phone l),
       property_address_normalized := normalize_address (property_address l)\<rparr>"

definition update_source_lead :: "uuid \<Rightarrow> (source_lead \<Rightarrow> source_lead) \<Rightarrow> db \<Rightarrow> db" where
  "update_source_lead i f d =
     d\<lparr>source_leads :=
         update_where (\<lambda>l. sl_id l = i) (\<lambda>l. normalize_source_lead_fields (f l))
           (source_leads d)\<rparr>"

text \<open>
  Attribution: the CRM lead's assigned user, when present and not zero, is looked up among
  the agents by \<open>fub_user_id\<close>.
\<close>

definition agent_for_user :: "db \<Rightarrow> int \<Rightarrow> uuid option \<times> uuid option" where
  "agent_for_user d u =
     (case single (filter (\<lambda>a. fub_user_id a = Some u) (agents d)) of
        None \<Rightarrow> (None, None)
      | Some a \<Rightarrow> (Some (ag_id a), Some (team_id a)))"

definition resolve_attribution :: "db \<Rightarrow> uuid \<Rightarrow> uuid option \<times> uuid option" where
  "resolve_attribution d fid =
     (case single (filter (\<lambda>f. fl_id f = fid) (fub_leads d)) of
        None \<Rightarrow> (None, None)
      | Some fubLead \<Rightarrow>
          (case assigned_user_id fubLead of
             None \<Rightarrow> (None, None)
           | Some u \<Rightarrow> if u = 0 then (None, None) else agent_for_user d u))"

text \<open>
  Inserting into \<open>lead_matches\<close> fails when a constraint of the table is violated: the
  unique pair \<open>(source_lead_id, fub_lead_id)\<close>, the two foreign keys, the list of match
  types, or the range of \<open>numeric(5,4)\<close>. A new row has status \<open>active\<close>.
\<close>

definition allowed_match_types :: "string list" where
  "allowed_match_types =
     [''email_exact'', ''phone_exact'', ''address_exact'', ''email_fuzzy'', ''phone_fuzzy'',
      ''address_fuzzy'', ''name_address'', ''manual'', ''ai_suggested'']"

definition match_insert_ok :: "db \<Rightarrow> uuid \<Rightarrow> uuid \<Rightarrow> string \<Rightarrow> rat \<Rightarrow> bool" where
  "match_insert_ok d lead fub mtype conf =
     (\<not> list_ex (\<lambda>m. lm_source_lead_id m = lead \<and> lm_fub_lead_id m = fub) (lead_matches d) \<and>
      lead \<in> set (map sl_id (source_leads d)) \<and>
      fub \<in> set (map fl_id (fub_leads d)) \<and>
      mtype \<in> set allowed_match_types \<and>
      \<bar>conf\<bar> < 10)"

definition insert_lead_match ::
  "uuid \<Rightarrow> uuid \<Rightarrow> string \<Rightarrow> rat \<Rightarrow> (string \<times> string) list \<Rightarrow> string \<Rightarrow> uuid option
     \<Rightarrow> uuid option \<times> uuid option \<Rightarrow> db \<Rightarrow> (uuid \<times> db) option" where
  "insert_lead_match lead fub mtype conf details by by_user attribution d =
     (if match_insert_ok d lead fub mtype conf
      then Some (next_uuid d,
             d\<lparr>lead_matches := lead_matches d @
                  [\<lparr>lm_id = next_uuid d, lm_source_lead_id = lead, lm_fub_lead_id = fub,
                    lm_match_type = mtype, lm_match_confidence = conf,
                    lm_match_details = details, matched_by = by,
                    matched_by_user_id = by_user, attributed_agent_id = fst attribution,
                    attributed_team_id = snd attribution, lm_status = Active\<rparr>],
               next_uuid := next_uuid d + 1\<rparr>)
      else None)"

definition insert_lineage :: "string \<Rightarrow> uuid \<Rightarrow> string \<Rightarrow> uuid \<Rightarrow> string \<Rightarrow> string \<Rightarrow> db \<Rightarrow> db" where
  "insert_lineage src src_id tgt tgt_id ttype by d =
     d\<lparr>data_lineage := data_lineage d @
          [\<lparr>dl_id = next_uuid d, source_table = src, source_id = src_id, target_table = tgt,
            target_id = tgt_id, operation = ''create'', transformation_type = ttype,
            performed_by = by\<rparr>],
       next_uuid := next_uuid d + 1\<rparr>"

record process_result =
  matched :: bool
  matchId :: "uuid option"
  candidatesCreated :: nat

definition mark_unmatched :: "timestamp \<Rightarrow> uuid \<Rightarrow> db \<Rightarrow> db" where
  "mark_unmatched now sourceLeadId d =
     update_source_lead sourceLeadId
       (\<lambda>l. l\<lparr>sl_match_status := Unmatched, matched_at := Some now\<rparr>) d"

definition auto_match ::
  "timestamp \<Rightarrow> db \<Rightarrow> uuid \<Rightarrow> match_result \<Rightarrow> string + process_result \<times> db" where
  "auto_match now d sourceLeadId autoMatch =
     (case insert_lead_match sourceLeadId (fub_lead_id autoMatch) (match_type autoMatch)
             (confidence autoMatch) (match_details autoMatch) ''system'' None
             (resolve_attribution d (fub_lead_id autoMatch)) d of
        None \<Rightarrow> Inl ''Failed to create match''
      | Some (mid, d1) \<Rightarrow>
          Inr (\<lparr>matched = True, matchId = Some mid, candidatesCreated = 0\<rparr>,
               insert_lineage ''source_leads'' sourceLeadId ''lead_matches'' mid ''match''
                 ''system''
                 (update_source_lead sourceLeadId
                    (\<lambda>l. l\<lparr>sl_match_status := Matched,
                           sl_match_confidence := Some (confidence autoMatch),
                           matched_at := Some now\<rparr>) d1)))"

text \<open>
  The candidate rows. \<open>String.replace\<close> with a string pattern replaces the first
  occurrence. The upsert on \<open>(source_lead_id, fub_lead_id)\<close> is one statement: it fails as
  a whole, and the handler only logs that, when a foreign key or the numeric range is
  violated or when two rows of the statement have the same key.
\<close>

fun replace_first :: "string \<Rightarrow> string \<Rightarrow> string \<Rightarrow> string" where
  "replace_first pat rep [] = []"
| "replace_first pat rep (c # cs) =
     (if prefix pat (c # cs) then rep @ drop (length pat) (c # cs)
      else c # replace_first pat rep cs)"

definition reason_of :: "match_result \<Rightarrow> match_reason" where
  "reason_of c =
     \<lparr>mr_type = match_type c,
      mr_field = replace_first ''_fuzzy'' [] (replace_first ''_exact'' [] (match_type c)),
      mr_score = confidence c, mr_details = match_details c\<rparr>"

definition upsert_candidate :: "uuid \<Rightarrow> db \<Rightarrow> match_result \<Rightarrow> db" where
  "upsert_candidate sourceLeadId d c =
     (if list_ex (\<lambda>r. mc_source_lead_id r = sourceLeadId \<and> mc_fub_lead_id r = fub_lead_id c)
           (match_candidates d)
      then d\<lparr>match_candidates :=
               update_where
                 (\<lambda>r. mc_source_lead_id r = sourceLeadId \<and> mc_fub_lead_id r = fub_lead_id c)
                 (\<lambda>r. r\<lparr>confidence_score := confidence c, match_reasons := [reason_of c]\<rparr>)
                 (match_candidates d)\<rparr>
      else d\<lparr>match_candidates := match_candidates d @
               [\<lparr>mc_id = next_uuid d, mc_source_lead_id = sourceLeadId,
                 mc_fub_lead_id = fub_lead_id c, confidence_score = confidence c,
                 match_reasons = [reason_of c], mc_status = CPending, reviewed_by = None,
                 reviewed_at = None, lead_match_id = None\<rparr>],
             next_uuid := next_uuid d + 1\<rparr>)"

definition upsert_ok :: "db \<Rightarrow> uuid \<Rightarrow> match_result list \<Rightarrow> bool" where
  "upsert_ok d sourceLeadId candidates =
     (distinct (map fub_lead_id candidates) \<and>
      sourceLeadId \<in> set (map sl_id (source_leads d)) \<and>
      list_all (\<lambda>c. fub_lead_id c \<in> set (map fl_id (fub_leads d)) \<and> \<bar>confidence c\<bar> < 10)
        candidates)"

definition upsert_candidates :: "uuid \<Rightarrow> match_result list \<Rightarrow> db \<Rightarrow> db" where
  "upsert_candidates sourceLeadId candidates d =
     (if upsert_ok d sourceLeadId candidates
      then foldl (upsert_candidate sourceLeadId) d candidates
      else d)"

definition review_candidates :: "match_result list \<Rightarrow> match_result list" where
  "review_candidates matches =
     filter (\<lambda>m. confidence m \<ge> REJECT_THRESHOLD \<and> confidence m < AUTO_MATCH) matches"

definition open_review ::
  "uuid \<Rightarrow> match_result list \<Rightarrow> db \<Rightarrow> process_result \<times> db" where
  "open_review sourceLeadId candidates d =
     (\<lparr>matched = False, matchId = None, candidatesCreated = length candidates\<rparr>,
      update_source_lead sourceLeadId
        (\<lambda>l. l\<lparr>sl_match_status := (if length candidates > 1 then Multiple else Review),
               sl_match_confidence :=
                 Some (fold max (tl (map confidence candidates))
                         (hd (map confidence candidates)))\<rparr>)
        (upsert_candidates sourceLeadId candidates d))"

definition processMatches ::
  "timestamp \<Rightarrow> db \<Rightarrow> uuid \<Rightarrow> match_result list \<Rightarrow> uuid \<Rightarrow> string + process_result \<times> db" where
  "processMatches now d sourceLeadId matches organizationId =
     (if matches = []
      then Inr (\<lparr>matched = False, matchId = None, candidatesCreated = 0\<rparr>,
                mark_unmatched now sourceLeadId d)
      else case find (\<lambda>m. confidence m \<ge> AUTO_MATCH) matches of
             Some autoMatch \<Rightarrow> auto_match now d sourceLeadId autoMatch
           | None \<Rightarrow>
               if review_candidates matches \<noteq> []
               then Inr (open_review sourceLeadId (review_candidates matches) d)
               else Inr (\<lparr>matched = False, matchId = None, candidatesCreated = 0\<rparr>,
                         mark_unmatched now sourceLeadId d))"

text \<open>The request handler of \<open>lead-matcher\<close>: the leads to process, then one turn per lead;
  an exception in a turn is counted and the loop goes on.\<close>

record match_request =
  source_lead_ids :: "uuid list option"
  rq_organization_id :: "uuid option"
  batch_size :: "nat option"

record match_counts =
  c_processed :: nat
  c_matched :: nat
  c_unmatched :: nat
  c_review :: nat
  c_errors :: nat

definition select_leads :: "match_request \<Rightarrow> db \<Rightarrow> uuid list" where
  "select_leads body d =
     (if source_lead_ids body \<noteq> None \<and> source_lead_ids body \<noteq> Some []
      then (case source_lead_ids body of Some ids \<Rightarrow> ids | None \<Rightarrow> [])
      else take (js_or (batch_size body) 100)
             (map sl_id
                (filter (\<lambda>l. sl_match_status l = MPending \<and>
                             (case rq_organization_id body of
                                None \<Rightarrow> True
                              | Some org \<Rightarrow> sl_organization_id l = org))
                        (source_leads d))))"

definition count_result :: "process_result \<Rightarrow> match_counts \<Rightarrow> match_counts" where
  "count_result r results =
     (let counted = results\<lparr>c_processed := c_processed results + 1\<rparr>
      in if matched r then counted\<lparr>c_matched := c_matched counted + 1\<rparr>
         else if candidatesCreated r > 0 then counted\<lparr>c_review := c_review counted + 1\<rparr>
         else counted\<lparr>c_unmatched := c_unmatched counted + 1\<rparr>)"

definition match_lead ::
  "(string \<Rightarrow> string \<Rightarrow> rat) \<Rightarrow> timestamp \<Rightarrow> db \<times> match_counts \<Rightarrow> uuid \<Rightarrow> db \<times> match_counts" where
  "match_lead similarity now acc sourceLeadId =
     (let d = fst acc; results = snd acc
      in case single (filter (\<lambda>l. sl_id l = sourceLeadId) (source_leads d)) of
           None \<Rightarrow> (d, results\<lparr>c_errors := c_errors results + 1\<rparr>)
         | Some sourceLead \<Rightarrow>
             (case processMatches now d sourceLeadId (findMatches similarity d sourceLeadId)
                     (sl_organization_id sourceLead) of
                Inl err \<Rightarrow> (d, results\<lparr>c_errors := c_errors results + 1\<rparr>)
              | Inr (r, d') \<Rightarrow> (d', count_result r results)))"

definition lead_matcher ::
  "(string \<Rightarrow> string \<Rightarrow> rat) \<Rightarrow> timestamp \<Rightarrow> match_request \<Rightarrow> db \<Rightarrow> match_counts \<times> db" where
  "lead_matcher similarity now body d =
     (case foldl (match_lead similarity now)
             (d, \<lparr>c_processed = 0, c_matched = 0, c_unmatched = 0, c_review = 0, c_errors = 0\<rparr>)
             (select_leads body d) of
        (d', results) \<Rightarrow> (results, d'))"

section \<open>Review resolver (\<open>approveCandidate\<close>, \<open>rejectCandidate\<close>)\<close>

definition update_candidates ::
  "(match_candidate \<Rightarrow> bool) \<Rightarrow> (match_candidate \<Rightarrow> match_candidate) \<Rightarrow> db \<Rightarrow> db" where
  "update_candidates p f d = d\<lparr>match_candidates := update_where p f (match_candidates d)\<rparr>"

definition approveCandidate :: "timestamp \<Rightarrow> db \<Rightarrow> uuid \<Rightarrow> uuid \<Rightarrow> string + uuid \<times> db" where
  "approveCandidate now d candidateId reviewedBy =
     (case single (filter (\<lambda>c. mc_id c = candidateId) (match_candidates d)) of
        None \<Rightarrow> Inl ''Candidate not found''
      | Some candidate \<Rightarrow>
          (case insert_lead_match (mc_source_lead_id candidate) (mc_fub_lead_id candidate)
                  ''manual'' (confidence_score candidate)
                  [(''approved_from_candidate'', ''true'')] ''manual'' (Some reviewedBy)
                  (resolve_attribution d (mc_fub_lead_id candidate)) d of
             None \<Rightarrow> Inl ''Failed to create match''
           | Some (mid, d1) \<Rightarrow>
               Inr (mid,
                 update_candidates
                   (\<lambda>c. mc_source_lead_id c = mc_source_lead_id candidate \<and>
                        mc_id c \<noteq> candidateId \<and> mc_status c = CPending)
                   (\<lambda>c. c\<lparr>mc_status := Rejected, reviewed_by := Some reviewedBy,
                          reviewed_at := Some now\<rparr>)
                   (update_source_lead (mc_source_lead_id candidate)
                      (\<lambda>l. l\<lparr>sl_match_status := Matched,
                             sl_match_confidence := Some (confidence_score candidate),
                             matched_at := Some now\<rparr>)
                      (update_candidates (\<lambda>c. mc_id c = candidateId)
                         (\<lambda>c. c\<lparr>mc_status := Approved, reviewed_by := Some reviewedBy,
                                reviewed_at := Some now, lead_match_id := Some mid\<rparr>)
                         d1)))))"

definition rejectCandidate :: "timestamp \<Rightarrow> db \<Rightarrow> uuid \<Rightarrow> uuid \<Rightarrow> db" where
  "rejectCandidate now d candidateId reviewedBy =
     update_candidates (\<lambda>c. mc_id c = candidateId)
       (\<lambda>c. c\<lparr>mc_status := Rejected, reviewed_by := Some reviewedBy,
              reviewed_at := Some now\<rparr>) d"

section \<open>Example data for the matcher\<close>

text \<open>Rows as the tables hold them: the normalized columns are computed from the raw ones
  by the generated column and the triggers.\<close>

definition new_lead ::
  "uuid \<Rightarrow> uuid \<Rightarrow> string option \<Rightarrow> string option \<Rightarrow> string option \<Rightarrow> source_lead" where
  "new_lead i org email phone address =
     \<lparr>sl_id = i, raw_row_id = None, sl_ingestion_id = None, sl_lead_source_id = 0,
      sl_organization_id = org, sl_email = email, sl_email_normalized = normalize_email email,
      sl_phone = phone, sl_phone_normalized = normalize_phone phone,
      property_address = address, property_address_normalized = normalize_address address,
      sl_other_fields = [], source_created_at = None, sl_match_status = MPending,
      sl_match_confidence = None, matched_at = None, sl_raw_data = []\<rparr>"

definition crm_lead ::
  "uuid \<Rightarrow> uuid \<Rightarrow> string option \<Rightarrow> string option \<Rightarrow> string option \<Rightarrow> int option \<Rightarrow> fub_lead" where
  "crm_lead i org email phone address user =
     \<lparr>fl_id = i, fl_organization_id = org, fl_email_normalized = normalize_email email,
      fl_phone_normalized = normalize_phone phone,
      address_normalized = normalize_address address, assigned_user_id = user\<rparr>"

text \<open>A lead whose phone is on CRM lead 1 and whose email is on CRM lead 2.\<close>

definition scorer_db :: db where
  "scorer_db = empty_db
     \<lparr>source_leads :=
        [new_lead 10 1 (Some ''John.Smith@Example.COM'') (Some ''(555) 123-4567'') None],
      fub_leads :=
        [crm_lead 1 1 (Some ''jane@example.com'') (Some ''555-123-4567'') None None,
         crm_lead 2 1 (Some ''john.smith@example.com'') None None (Some 42)],
      next_uuid := 100\<rparr>"



definition candidates_of :: "db \<Rightarrow> uuid \<Rightarrow> match_candidate list" where
  "candidates_of d lead = filter (\<lambda>c. mc_source_lead_id c = lead) (match_candidates d)"




definition db_after :: "string + 'a \<times> db \<Rightarrow> db \<Rightarrow> db" where
  "db_after outcome d = (case outcome of Inl err \<Rightarrow> d | Inr (r, d') \<Rightarrow> d')"

definition succeeded :: "string + 'a \<Rightarrow> bool" where
  "succeeded outcome = (case outcome of Inl err \<Rightarrow> False | Inr r \<Rightarrow> True)"



text \<open>
  A lead whose address resembles those of two CRM leads. The matcher, polling for pending
  leads, opens two candidates (ids 100 and 101); reviewer 77 approves the first, which
  rejects the second; then the rejected one is approved as well.
\<close>

definition double_db :: db where
  "double_db = empty_db
     \<lparr>source_leads := [new_lead 10 1 None (Some ''5550000000'') (Some ''456 Oak Ave'')],
      fub_leads := [crm_lead 1 1 None None (Some ''456 oak avenue'') None,
                    crm_lead 2 1 None None (Some ''456 oak av'') None],
      next_uuid := 100\<rparr>"

definition poll_request :: match_request where
  "poll_request = \<lparr>source_lead_ids = None, rq_organization_id = None, batch_size = None\<rparr>"

definition after_matching :: db where
  "after_matching = snd (lead_matcher trigram_similarity 5 poll_request double_db)"

definition after_first_approval :: db where
  "after_first_approval = db_after (approveCandidate 6 after_matching 100 77) after_matching"

definition after_second_approval :: db where
  "after_second_approval =
     db_after (approveCandidate 7 after_first_approval 101 77) after_first_approval"

definition active_matches :: "db \<Rightarrow> uuid \<Rightarrow> lead_match list" where
  "active_matches d lead =
     filter (\<lambda>m. lm_source_lead_id m = lead \<and> lm_status m = Active) (lead_matches d)"

definition pending_candidates :: "db \<Rightarrow> uuid \<Rightarrow> match_candidate list" where
  "pending_candidates d lead =
     filter (\<lambda>c. mc_source_lead_id c = lead \<and> mc_status c = CPending) (match_candidates d)"

definition lead_status :: "db \<Rightarrow> uuid \<Rightarrow> match_status list" where
  "lead_status d lead = map sl_match_status (filter (\<lambda>l. sl_id l = lead) (source_leads d))"

definition candidate_status_of :: "db \<Rightarrow> uuid \<Rightarrow> candidate_status list" where
  "candidate_status_of d cid = map mc_status (filter (\<lambda>c. mc_id c = cid) (match_candidates d))"

definition rejected_candidate :: match_candidate where
  "rejected_candidate = hd (tl (match_candidates after_first_approval))"

text \<open>The rows of \<open>lead_matches\<close> and of \<open>data_lineage\<close> that belong to a lead, and a
  request that names lead 10.\<close>

definition matches_of :: "db \<Rightarrow> uuid \<Rightarrow> lead_match list" where
  "matches_of d lead = filter (\<lambda>m. lm_source_lead_id m = lead) (lead_matches d)"

definition lineage_of :: "db \<Rightarrow> uuid \<Rightarrow> lineage list" where
  "lineage_of d lead =
     filter (\<lambda>e. (source_table e = ''source_leads'' \<and> source_id e = lead) \<or>
                   (target_table e = ''source_leads'' \<and> target_id e = lead))
            (data_lineage d)"

definition explicit_request :: match_request where
  "explicit_request =
     \<lparr>source_lead_ids = Some [10], rq_organization_id = None, batch_size = None\<rparr>"

definition untouched :: "uuid \<Rightarrow> db \<Rightarrow> db \<Rightarrow> bool" where
  "untouched lead d d' =
     (length (source_leads d') = length (source_leads d) \<and>
      (\<forall>i < length (source_leads d).
         sl_id (source_leads d ! i) = lead \<longrightarrow> source_leads d' ! i = source_leads d ! i) \<and>
      matches_of d' lead = matches_of d lead \<and>
      lineage_of d' lead = lineage_of d lead)"

definition after_auto_match :: db where
  "after_auto_match = snd (lead_matcher trigram_similarity 5 poll_request scorer_db)"

section \<open>Transformer (edge function \<open>lead-transformer\<close>)\<close>

text \<open>
  \<open>mapFields\<close>: for every target field the first candidate column with a non-blank value
  wins, trimmed; otherwise the field is null.
\<close>

definition map_field :: "csv_row \<Rightarrow> string list \<Rightarrow> string option" where
  "map_field rawData sourceColumns =
     (case find has_value (map (map_of rawData) sourceColumns) of
        Some (Some v) \<Rightarrow> Some (js_trim v)
      | _ \<Rightarrow> None)"

definition mapFields :: "csv_row \<Rightarrow> field_mapping \<Rightarrow> (string \<times> string option) list" where
  "mapFields rawData fieldMapping =
     map (\<lambda>(targetField, sourceColumns). (targetField, map_field rawData sourceColumns))
         fieldMapping"

definition field :: "(string \<times> string option) list \<Rightarrow> string \<Rightarrow> string option" where
  "field normalized k = (case map_of normalized k of Some v \<Rightarrow> v | None \<Rightarrow> None)"

text \<open>\<open>generateEmbeddingText\<close>: the non-empty parts joined by a comma and a space.\<close>

definition labelled :: "string \<Rightarrow> string option \<Rightarrow> string" where
  "labelled label v = (case v of None \<Rightarrow> [] | Some s \<Rightarrow> label @ s)"

fun join :: "string \<Rightarrow> string list \<Rightarrow> string" where
  "join sep [] = []"
| "join sep [p] = p"
| "join sep (p # q # ps) = p @ sep @ join sep (q # ps)"

definition generateEmbeddingText :: "(string \<times> string option) list \<Rightarrow> string \<Rightarrow> string" where
  "generateEmbeddingText normalized sourceName =
     join '', ''
       (filter (\<lambda>p. p \<noteq> [])
          [''Lead from '' @ sourceName,
           (case (field normalized ''first_name'', field normalized ''last_name'') of
              (Some f, Some l) \<Rightarrow> f @ '' '' @ l
            | _ \<Rightarrow> labelled [] (field normalized ''full_name'')),
           labelled ''email: '' (field normalized ''email''),
           labelled ''phone: '' (field normalized ''phone''),
           labelled ''property: '' (field normalized ''address''),
           labelled [] (field normalized ''city''),
           labelled [] (field normalized ''state''),
           labelled [] (field normalized ''zip''),
           labelled ''type: '' (field normalized ''lead_type'')])"

text \<open>\<open>queueForEmbedding\<close>: an upsert on \<open>(table_name, record_id)\<close> that resets the task.\<close>

definition queueForEmbedding :: "timestamp \<Rightarrow> string \<Rightarrow> uuid \<Rightarrow> string \<Rightarrow> db \<Rightarrow> db" where
  "queueForEmbedding now tableName recordId textToEmbed d =
     (if list_ex (\<lambda>q. table_name q = tableName \<and> record_id q = recordId) (embedding_queue d)
      then d\<lparr>embedding_queue :=
               update_where (\<lambda>q. table_name q = tableName \<and> record_id q = recordId)
                 (\<lambda>q. q\<lparr>text_to_embed := textToEmbed, eq_status := QPending, attempts := 0\<rparr>)
                 (embedding_queue d)\<rparr>
      else d\<lparr>embedding_queue := embedding_queue d @
               [\<lparr>eq_id = next_uuid d, table_name = tableName, record_id = recordId,
                 text_to_embed = textToEmbed, eq_status = QPending, attempts = 0,
                 last_error = None, eq_embedding = None, processed_at = None,
                 eq_created_at = now\<rparr>],
             next_uuid := next_uuid d + 1\<rparr>)"

text \<open>
  The duplicate look-up: the canonical lead of the same organization and source whose
  \<open>email_normalized\<close> equals the mapped email, lower-cased and trimmed. An equality filter
  on a null organization or source matches no row.
\<close>

definition find_existing :: "db \<Rightarrow> uuid option \<Rightarrow> uuid option \<Rightarrow> string \<Rightarrow> source_lead option" where
  "find_existing d org src email =
     single (filter (\<lambda>l. Some (sl_organization_id l) = org \<and>
                          sl_email_normalized l = Some (js_trim (lower email)) \<and>
                          Some (sl_lead_source_id l) = src)
                    (source_leads d))"

text \<open>
  Marking a raw row as duplicate is one \<open>update\<close> of \<open>raw_lead_rows\<close> that sets
  \<open>is_duplicate\<close> and \<open>duplicate_of\<close>. The column \<open>duplicate_of\<close> is declared
  \<open>references raw_lead_rows(id)\<close>: when the value written is not the id of a raw row the
  statement is rejected and the row keeps both columns; the handler does not look at the
  outcome of the update.
\<close>

definition mark_duplicate :: "uuid \<Rightarrow> uuid \<Rightarrow> db \<Rightarrow> db" where
  "mark_duplicate rawRowId existingId d =
     (if existingId \<in> set (map rr_id (raw_lead_rows d))
      then d\<lparr>raw_lead_rows :=
               update_where (\<lambda>r. rr_id r = rawRowId)
                 (\<lambda>r. r\<lparr>is_duplicate := True, duplicate_of := Some existingId\<rparr>)
                 (raw_lead_rows d)\<rparr>
      else d)"

text \<open>
  Creating the canonical lead. The insert is rejected when the organization or the lead
  source is null (both columns are \<open>not null\<close>); the generated column and the
  normalization trigger fill the normalized columns. The date parser is an argument.
\<close>

definition create_source_lead ::
  "(string \<Rightarrow> string option \<Rightarrow> timestamp option) \<Rightarrow> timestamp \<Rightarrow> raw_ingestion
     \<Rightarrow> lead_source option \<Rightarrow> raw_lead_row \<Rightarrow> (string \<times> string option) list \<Rightarrow> db
     \<Rightarrow> (uuid \<times> db) option" where
  "create_source_lead parseDate now ingestion leadSource rawRow normalized d =
     (case (ri_organization_id ingestion,
            (case leadSource of Some s \<Rightarrow> Some (ls_id s) | None \<Rightarrow> ri_lead_source_id ingestion)) of
        (Some org, Some src) \<Rightarrow>
          Some (next_uuid d,
            d\<lparr>source_leads := source_leads d @
                 [normalize_source_lead_fields
                    \<lparr>sl_id = next_uuid d, raw_row_id = Some (rr_id rawRow),
                     sl_ingestion_id = Some (ri_id ingestion), sl_lead_source_id = src,
                     sl_organization_id = org, sl_email = field normalized ''email'',
                     sl_email_normalized = normalize_email (field normalized ''email''),
                     sl_phone = field normalized ''phone'', sl_phone_normalized = None,
                     property_address = field normalized ''address'',
                     property_address_normalized = None,
                     sl_other_fields =
                       map (\<lambda>k. (k, field normalized k))
                         [''first_name'', ''last_name'', ''full_name'', ''city'', ''state'',
                          ''zip'', ''lead_type'', ''source_lead_id''],
                     source_created_at =
                       (case field normalized ''source_created_at'' of
                          None \<Rightarrow> None
                        | Some s \<Rightarrow>
                            parseDate s
                              (case leadSource of
                                 None \<Rightarrow> None
                               | Some ls \<Rightarrow>
                                   (case ls_csv_config ls of
                                      None \<Rightarrow> None | Some c \<Rightarrow> date_format c))),
                     sl_match_status = MPending, sl_match_confidence = None,
                     matched_at = None, sl_raw_data = rr_raw_data rawRow\<rparr>],
              next_uuid := next_uuid d + 1\<rparr>)
      | _ \<Rightarrow> None)"

record transform_state =
  ts_db :: db
  createdCount :: nat
  duplicateCount :: nat
  sourceLeadIds :: "uuid list"

definition link_and_queue ::
  "timestamp \<Rightarrow> lead_source option \<Rightarrow> raw_lead_row \<Rightarrow> (string \<times> string option) list \<Rightarrow> uuid
     \<Rightarrow> db \<Rightarrow> db" where
  "link_and_queue now leadSource rawRow normalized leadId d =
     queueForEmbedding now ''source_leads'' leadId
       (generateEmbeddingText normalized
          (case leadSource of None \<Rightarrow> ''Unknown'' | Some s \<Rightarrow> ls_display_name s))
       (insert_lineage ''raw_lead_rows'' (rr_id rawRow) ''source_leads'' leadId ''normalize''
          ''function:lead-transformer''
          (d\<lparr>raw_lead_rows :=
               update_where (\<lambda>r. rr_id r = rr_id rawRow)
                 (\<lambda>r. r\<lparr>rr_source_lead_id := Some leadId\<rparr>) (raw_lead_rows d)\<rparr>))"

definition transform_new ::
  "(string \<Rightarrow> string option \<Rightarrow> timestamp option) \<Rightarrow> timestamp \<Rightarrow> raw_ingestion
     \<Rightarrow> lead_source option \<Rightarrow> transform_state \<Rightarrow> raw_lead_row
     \<Rightarrow> (string \<times> string option) list \<Rightarrow> transform_state" where
  "transform_new parseDate now ingestion leadSource st rawRow normalized =
     (case create_source_lead parseDate now ingestion leadSource rawRow normalized (ts_db st) of
        None \<Rightarrow> st
      | Some (leadId, d1) \<Rightarrow>
          st\<lparr>ts_db := link_and_queue now leadSource rawRow normalized leadId d1,
             createdCount := createdCount st + 1,
             sourceLeadIds := sourceLeadIds st @ [leadId]\<rparr>)"

definition existing_for ::
  "raw_ingestion \<Rightarrow> lead_source option \<Rightarrow> db \<Rightarrow> (string \<times> string option) list
     \<Rightarrow> source_lead option" where
  "existing_for ingestion leadSource d normalized =
     (case field normalized ''email'' of
        None \<Rightarrow> None
      | Some email \<Rightarrow>
          if email = [] then None
          else find_existing d (ri_organization_id ingestion)
                 (case leadSource of Some s \<Rightarrow> Some (ls_id s)
                                   | None \<Rightarrow> ri_lead_source_id ingestion)
                 email)"

definition transform_row ::
  "(string \<Rightarrow> string option \<Rightarrow> timestamp option) \<Rightarrow> timestamp \<Rightarrow> raw_ingestion
     \<Rightarrow> lead_source option \<Rightarrow> transform_state \<Rightarrow> raw_lead_row \<Rightarrow> transform_state" where
  "transform_row parseDate now ingestion leadSource st rawRow =
     (let normalized = mapFields (rr_raw_data rawRow) (configured_field_mapping leadSource)
      in case existing_for ingestion leadSource (ts_db st) normalized of
           Some existing \<Rightarrow>
             st\<lparr>ts_db := mark_duplicate (rr_id rawRow) (sl_id existing) (ts_db st),
                duplicateCount := duplicateCount st + 1\<rparr>
         | None \<Rightarrow> transform_new parseDate now ingestion leadSource st rawRow normalized)"

record transform_summary =
  leads_created :: nat
  duplicates_found :: nat
  match_requests :: "uuid list"

definition transform_rows ::
  "(string \<Rightarrow> string option \<Rightarrow> timestamp option) \<Rightarrow> timestamp \<Rightarrow> raw_ingestion \<Rightarrow> uuid
     \<Rightarrow> raw_lead_row list \<Rightarrow> db \<Rightarrow> transform_summary response \<times> db" where
  "transform_rows parseDate now ingestion ingestion_id rawRows d1 =
     (let st = foldl (transform_row parseDate now ingestion (find_lead_source d1 ingestion))
                 \<lparr>ts_db = d1, createdCount = 0, duplicateCount = 0, sourceLeadIds = []\<rparr>
                 rawRows
      in (Json \<lparr>leads_created = createdCount st, duplicates_found = duplicateCount st,
                match_requests = sourceLeadIds st\<rparr>,
          set_ingestion ingestion_id
            (\<lambda>r. r\<lparr>ri_status := ICompleted,
                   duplicate_rows := duplicate_rows ingestion + duplicateCount st,
                   processing_log := processing_log ingestion @
                     [\<lparr>log_timestamp = now, log_action = ''transformation_completed'',
                       log_details = []\<rparr>]\<rparr>)
            (ts_db st)))"

definition lead_transformer ::
  "(string \<Rightarrow> string option \<Rightarrow> timestamp option) \<Rightarrow> timestamp \<Rightarrow> uuid \<Rightarrow> db
     \<Rightarrow> transform_summary response \<times> db" where
  "lead_transformer parseDate now ingestion_id d =
     (case single (filter (\<lambda>r. ri_id r = ingestion_id) (raw_ingestions d)) of
        None \<Rightarrow> (ErrorResponse ''Ingestion not found'' 404, d)
      | Some ingestion \<Rightarrow>
          (let d1 = set_ingestion ingestion_id
                      (\<lambda>r. r\<lparr>ri_status := ITransforming,
                             processing_log := processing_log ingestion @
                               [\<lparr>log_timestamp = now,
                                 log_action = ''transformation_started'',
                                 log_details = []\<rparr>]\<rparr>) d;
               rawRows = filter (\<lambda>r. rr_ingestion_id r = ingestion_id \<and> is_valid r \<and>
                                      rr_source_lead_id r = None)
                           (raw_lead_rows d1)
           in if rawRows = []
              then (Json \<lparr>leads_created = 0, duplicates_found = 0, match_requests = []\<rparr>,
                    set_ingestion ingestion_id (\<lambda>r. r\<lparr>ri_status := ICompleted\<rparr>) d1)
              else transform_rows parseDate now ingestion ingestion_id rawRows d1))"

text \<open>
  Scenario 3: one batch of organization 1 and source 2 whose two rows carry the same
  email, parsed and then transformed. The date parser is not exercised.
\<close>

definition no_dates :: "string \<Rightarrow> string option \<Rightarrow> timestamp option" where
  "no_dates s format = None"

definition zillow :: lead_source where
  "zillow = \<lparr>ls_id = 2, ls_display_name = ''Zillow'', ls_csv_config = None,
              ls_field_mapping = None, ls_validation_rules = None\<rparr>"

definition dup_staged_db :: db where
  "dup_staged_db = empty_db
     \<lparr>lead_sources := [zillow],
      raw_ingestions :=
        [(new_ingestion 0 ''leads.csv'' ''3f2a'' 1)
           \<lparr>ri_lead_source_id := Some 2, ri_organization_id := Some 1\<rparr>],
      next_uuid := 3\<rparr>"

definition dup_rows :: "csv_row list" where
  "dup_rows = [ [(''Email'', ''ann@example.com''), (''Name'', ''Ann'')],
               [(''Email'', ''Ann@Example.COM''), (''Name'', ''Ann B'')]]"

definition dup_parsed_db :: db where
  "dup_parsed_db = snd (csv_parser default_email_regex 5 (Rows dup_rows) 0 dup_staged_db)"

definition dup_transformed_db :: db where
  "dup_transformed_db = snd (lead_transformer no_dates 6 0 dup_parsed_db)"

definition row_state :: "raw_lead_row \<Rightarrow> uuid \<times> bool \<times> bool \<times> uuid option \<times> uuid option" where
  "row_state r = (rr_id r, is_valid r, is_duplicate r, duplicate_of r, rr_source_lead_id r)"

section \<open>The invariant of the matching tables\<close>

text \<open>
  \<open>lead_inv\<close>: lead ids are unique, and every lead has at most one active Match, is in
  status \<open>matched\<close> exactly when it has one, and has no pending candidate while it is
  \<open>matched\<close> or still \<open>pending\<close>. \<open>step_on lead d d'\<close> describes a change that rewrites
  only the rows of one lead and keeps these properties for it; \<open>awaiting\<close> says that the
  lead is still to be matched.
\<close>

definition lead_ok :: "db \<Rightarrow> source_lead \<Rightarrow> bool" where
  "lead_ok d l =
     (length (active_matches d (sl_id l)) \<le> 1 \<and>
      (sl_match_status l = Matched \<longleftrightarrow> length (active_matches d (sl_id l)) = 1) \<and>
      (sl_match_status l = Matched \<or> sl_match_status l = MPending \<longrightarrow>
         pending_candidates d (sl_id l) = []))"

definition lead_inv :: "db \<Rightarrow> bool" where
  "lead_inv d =
     (distinct (map sl_id (source_leads d)) \<and> (\<forall>l \<in> set (source_leads d). lead_ok d l))"

definition awaiting :: "db \<Rightarrow> uuid \<Rightarrow> bool" where
  "awaiting d lead =
     (\<forall>l \<in> set (source_leads d). sl_id l = lead \<longrightarrow> sl_match_status l = MPending)"

definition step_on :: "uuid \<Rightarrow> db \<Rightarrow> db \<Rightarrow> bool" where
  "step_on lead d d' =
     (\<exists>g. (\<forall>l. sl_id (g l) = sl_id l) \<and>
          source_leads d' = update_where (\<lambda>l. sl_id l = lead) g (source_leads d) \<and>
          (\<forall>other. other \<noteq> lead \<longrightarrow>
             active_matches d' other = active_matches d other \<and>
             pending_candidates d' other = pending_candidates d other) \<and>
          (\<forall>l \<in> set (source_leads d). sl_id l = lead \<longrightarrow> lead_ok d' (g l)))"

definition first_candidate :: match_candidate where
  "first_candidate = hd (match_candidates after_matching)"

section \<open>Normalizer: idempotence\<close>



































section \<open>CSV parser: batch counters\<close>

lemma count_rows_eq:
  "count_rows validate rows v e =
     (v + length (filter (\<lambda>r. fst (validate r)) rows),
      e + length (filter (\<lambda>r. \<not> fst (validate r)) rows))"
  by (induction rows arbitrary: v e) auto

lemma count_rows_sum:
  "count_rows validate rows 0 0 = (v, e) \<Longrightarrow> v + e = length rows"
  using sum_length_filter_compl[of "\<lambda>r. fst (validate r)" rows]
  by (simp add: count_rows_eq)

lemma mem_update_where:
  assumes "r \<in> set (update_where p f xs)" and "p r" and "\<And>x. p (f x) = p x"
  shows "\<exists>x \<in> set xs. p x \<and> r = f x"
  using assms by (auto simp: update_where_def split: if_splits)

lemma update_where_twice:
  assumes "\<And>x. p (f x) = p x"
  shows "update_where p g (update_where p f xs) = update_where p (\<lambda>x. g (f x)) xs"
  using assms by (simp add: update_where_def)

lemma filter_make_raw_rows:
  "length (filter is_valid (make_raw_rows validate i s n rows)) =
     length (filter (\<lambda>r. fst (validate r)) rows)"
  "length (filter (\<lambda>r. \<not> is_valid r) (make_raw_rows validate i s n rows)) =
     length (filter (\<lambda>r. \<not> fst (validate r)) rows)"
proof -
  have "length (filter (\<lambda>r. fst (validate r)) (map snd (enumerate 0 rows))) =
        length (filter (\<lambda>r. fst (validate r)) rows)" by simp
  then show "length (filter is_valid (make_raw_rows validate i s n rows)) =
     length (filter (\<lambda>r. fst (validate r)) rows)"
    unfolding make_raw_rows_def filter_map length_map o_def split_def by simp
  have "length (filter (\<lambda>r. \<not> fst (validate r)) (map snd (enumerate 0 rows))) =
        length (filter (\<lambda>r. \<not> fst (validate r)) rows)" by simp
  then show "length (filter (\<lambda>r. \<not> is_valid r) (make_raw_rows validate i s n rows)) =
     length (filter (\<lambda>r. \<not> fst (validate r)) rows)"
    unfolding make_raw_rows_def filter_map length_map o_def split_def by simp
qed

text \<open>
  Claim C10 (as amended). At the end of a successful parse the stored counters of the batch
  are: \<open>total_rows\<close> and \<open>parsed_rows\<close> both equal to the number of data rows, and
  \<open>parsed_rows = valid_rows + error_rows\<close>, where \<open>valid_rows\<close> counts the inserted rows
  that passed validation and \<open>error_rows\<close> those that failed it.
\<close>

theorem csv_parser_counters:
  assumes run: "csv_parser regex_test now (Rows rows) ingestion_id d = (resp, d')"
      and found: "single (filter (\<lambda>r. ri_id r = ingestion_id) (raw_ingestions d)) = Some ingestion"
      and r: "r \<in> set (raw_ingestions d')" "ri_id r = ingestion_id"
  shows "ri_status r = IParsed \<and>
         total_rows r = Some (length rows) \<and>
         parsed_rows r = length rows \<and>
         parsed_rows r = valid_rows r + error_rows r \<and>
         valid_rows r = length (filter is_valid (drop (length (raw_lead_rows d)) (raw_lead_rows d'))) \<and>
         error_rows r =
           length (filter (\<lambda>x. \<not> is_valid x) (drop (length (raw_lead_rows d)) (raw_lead_rows d')))"
proof -
  let ?p = "\<lambda>r. ri_id r = ingestion_id"
  let ?leadSource = "find_lead_source d ingestion"
  let ?validate = "\<lambda>row. validateRow regex_test row (configured_field_mapping ?leadSource)
                              (configured_validation_rules ?leadSource)"
  let ?counts = "count_rows ?validate rows 0 0"
  let ?new = "make_raw_rows ?validate ingestion_id (configured_skip_rows ?leadSource)
                (next_uuid d) rows"
  let ?f1 = "\<lambda>r. r\<lparr>ri_status := IProcessing,
                      processing_log := processing_log ingestion @
                        [\<lparr>log_timestamp = now, log_action = ''parsing_started'',
                          log_details = []\<rparr>]\<rparr>"
  let ?f2 = "\<lambda>r. r\<lparr>total_rows := Some (length rows)\<rparr>"
  let ?f4 = "\<lambda>r. r\<lparr>ri_status := IParsed,
                        parsed_rows := length rows,
                        valid_rows := fst ?counts,
                        error_rows := snd ?counts,
                        processing_log := processing_log ingestion @
                          [\<lparr>log_timestamp = now, log_action = ''parsing_completed'',
                            log_details = []\<rparr>]\<rparr>"
  have ls: "find_lead_source (set_ingestion ingestion_id ?f1 d) ingestion = ?leadSource"
    by (simp add: find_lead_source_def set_ingestion_def split: option.split)
  have d': "d' = set_ingestion ingestion_id ?f4
                  ((set_ingestion ingestion_id ?f2 (set_ingestion ingestion_id ?f1 d))
                     \<lparr>raw_lead_rows := raw_lead_rows d @ ?new,
                      next_uuid := next_uuid d + length rows\<rparr>)"
    using run found
    by (simp add: csv_parser_def parse_outcome_def parse_rows_def ls Let_def)
       (simp add: set_ingestion_def)
  have ings: "raw_ingestions d' =
      update_where ?p ?f4 (update_where ?p ?f2 (update_where ?p ?f1 (raw_ingestions d)))"
    by (simp add: d' set_ingestion_def)
  have rows': "raw_lead_rows d' = raw_lead_rows d @ ?new"
    by (simp add: d' set_ingestion_def)
  let ?l1 = "update_where ?p ?f1 (raw_ingestions d)"
  let ?l2 = "update_where ?p ?f2 ?l1"
  have "\<exists>x \<in> set ?l2. ?p x \<and> r = ?f4 x"
  proof (rule mem_update_where[of r ?p ?f4 ?l2])
    show "r \<in> set (update_where ?p ?f4 ?l2)" using r(1) by (simp only: ings)
    show "?p r" by (rule r(2))
    show "\<And>x. ?p (?f4 x) = ?p x" by simp
  qed
  then obtain x where x: "x \<in> set ?l2" "?p x" "r = ?f4 x" by blast
  have "\<exists>y \<in> set ?l1. ?p y \<and> x = ?f2 y"
  proof (rule mem_update_where[of x ?p ?f2 ?l1])
    show "x \<in> set ?l2" by (rule x(1))
    show "?p x" by (rule x(2))
    show "\<And>x. ?p (?f2 x) = ?p x" by simp
  qed
  then obtain y where y: "x = ?f2 y" by blast
  have tot: "total_rows r = Some (length rows)" by (simp add: x(3) y)
  have st: "ri_status r = IParsed" "parsed_rows r = length rows"
           "valid_rows r = fst ?counts" "error_rows r = snd ?counts"
    by (simp_all add: x(3))
  have sum: "fst ?counts + snd ?counts = length rows"
    using count_rows_sum[of ?validate rows "fst ?counts" "snd ?counts"] by simp
  have v: "fst ?counts = length (filter is_valid ?new)"
    by (simp add: count_rows_eq filter_make_raw_rows)
  have e: "snd ?counts = length (filter (\<lambda>x. \<not> is_valid x) ?new)"
    by (simp add: count_rows_eq filter_make_raw_rows)
  show ?thesis using tot st sum v e by (simp add: rows')
qed

theorem csv_parser_counters_witness:
  "single (filter (\<lambda>r. ri_id r = 0) (raw_ingestions staged_db)) =
     Some (new_ingestion 0 ''leads.csv'' ''3f2a'' 1) \<and>
   parsed_ingestion \<in> set (raw_ingestions parsed_db) \<and>
   ri_id parsed_ingestion = 0 \<and>
   ri_status parsed_ingestion = IParsed \<and>
   total_rows parsed_ingestion = Some (length two_rows) \<and>
   parsed_rows parsed_ingestion = length two_rows \<and>
   parsed_rows parsed_ingestion = valid_rows parsed_ingestion + error_rows parsed_ingestion \<and>
   map is_valid (raw_lead_rows parsed_db) = [True, False] \<and>
   counters parsed_ingestion = (Some 2, 2, 1, 1)"
proof -
  have run: "csv_parser default_email_regex 5 (Rows two_rows) 0 staged_db =
               (fst (csv_parser default_email_regex 5 (Rows two_rows) 0 staged_db), parsed_db)"
    by (simp add: parsed_db_def)
  have found: "single (filter (\<lambda>r. ri_id r = 0) (raw_ingestions staged_db)) =
                 Some (new_ingestion 0 ''leads.csv'' ''3f2a'' 1)"
    by (simp add: staged_db_def empty_db_def new_ingestion_def single_def)
  have mem: "parsed_ingestion \<in> set (raw_ingestions parsed_db)" by code_simp
  have id: "ri_id parsed_ingestion = 0" by code_simp
  have rows: "map is_valid (raw_lead_rows parsed_db) = [True, False]" by code_simp
  have c: "counters parsed_ingestion = (Some 2, 2, 1, 1)" by code_simp
  show ?thesis
    using csv_parser_counters[OF run found mem id] found mem id rows c by simp
qed

text \<open>
  Claim C10 as stated fails: \<open>parsed_rows\<close> already counts every data row, the invalid
  ones included, so \<open>total_rows = parsed_rows + error_rows\<close> is false as soon as one row
  fails validation. In the two-row file above: total 2, parsed 2, errors 1.
\<close>

theorem total_rows_not_parsed_plus_error:
  "total_rows parsed_ingestion = Some 2 \<and> parsed_rows parsed_ingestion = 2 \<and>
   error_rows parsed_ingestion = 1 \<and>
   total_rows parsed_ingestion \<noteq>
     Some (parsed_rows parsed_ingestion + error_rows parsed_ingestion)"
  by code_simp

section \<open>Embedding queue worker: whole-batch failure and exhausted tasks\<close>

lemma set_claim_items: "set (claim_items b m q) \<subseteq> {t \<in> set q. eq_status t = QPending \<and> attempts t < m}"
  unfolding claim_items_def using set_take_subset[of b] by fastforce

lemma distinct_ids_claim_items:
  assumes "distinct (map eq_id q)"
  shows "distinct (map eq_id (claim_items b m q))"
proof -
  from assms have d: "distinct q" and i: "inj_on eq_id (set q)" by (simp_all add: distinct_map)
  have "distinct (claim_items b m q)" using d by (simp add: claim_items_def)
  moreover have "inj_on eq_id (set (claim_items b m q))"
    using i set_claim_items[of b m q] by (auto intro: inj_on_subset)
  ultimately show ?thesis by (simp add: distinct_map)
qed

lemma foldl_revert_item:
  "embedding_queue (foldl (revert_item m) d items) = map (revert_all m items) (embedding_queue d)"
proof (induction items arbitrary: d)
  case Nil
  have "revert_all m [] = (\<lambda>r. r)" by (rule ext) simp
  then show ?case by simp
next
  case (Cons it its)
  have "revert_all m (it # its) =
          revert_all m its \<circ>
            (\<lambda>r. if eq_id r = eq_id it
                 then r\<lparr>eq_status := QPending, attempts := attempts it + 1,
                        last_error := Some m\<rparr>
                 else r)"
    by (rule ext) simp
  moreover have "embedding_queue (revert_item m d it) =
      map (\<lambda>r. if eq_id r = eq_id it
                 then r\<lparr>eq_status := QPending, attempts := attempts it + 1,
                        last_error := Some m\<rparr>
                 else r) (embedding_queue d)"
    by (simp add: revert_item_def set_queue_item_def update_where_def)
  moreover have "embedding_queue (foldl (revert_item m) d (it # its)) =
      map (revert_all m its) (embedding_queue (revert_item m d it))"
    by (simp only: foldl_Cons Cons.IH)
  ultimately show ?case by (simp only: map_map)
qed

lemma revert_all_other:
  "eq_id r \<notin> eq_id ` set items \<Longrightarrow> revert_all m items r = r"
  by (induction items arbitrary: r) auto

lemma revert_all_hit:
  assumes "distinct (map eq_id items)" "it \<in> set items" "eq_id r = eq_id it"
  shows "revert_all m items r =
           r\<lparr>eq_status := QPending, attempts := attempts it + 1, last_error := Some m\<rparr>"
  using assms
proof (induction items arbitrary: r)
  case Nil then show ?case by simp
next
  case (Cons a items)
  show ?case
  proof (cases "it = a")
    case True
    with Cons.prems have "eq_id a \<notin> eq_id ` set items" by auto
    then show ?thesis using True Cons.prems(3) by (simp add: revert_all_other)
  next
    case False
    with Cons.prems have "it \<in> set items" "eq_id a \<noteq> eq_id it" by auto
    with Cons show ?thesis by simp
  qed
qed

lemma same_id_same_row:
  "distinct (map eq_id q) \<Longrightarrow> a \<in> set q \<Longrightarrow> b \<in> set q \<Longrightarrow> eq_id a = eq_id b \<Longrightarrow> a = b"
  by (auto simp: distinct_map dest: inj_onD)

lemma batch_failure_queue:
  assumes dist: "distinct (map eq_id (embedding_queue d))"
      and fail: "provider (map text_to_embed (claim_items b m (embedding_queue d))) = Inl msg"
  shows "embedding_queue (snd (processEmbeddingQueue provider now b m d)) =
           map (\<lambda>t. if t \<in> set (claim_items b m (embedding_queue d)) then reverted msg t else t)
               (embedding_queue d)"
proof -
  let ?q = "embedding_queue d"
  let ?items = "claim_items b m ?q"
  have sub: "set ?items \<subseteq> set ?q" using set_claim_items[of b m ?q] by auto
  have di: "distinct (map eq_id ?items)" using dist by (rule distinct_ids_claim_items)
  show ?thesis
  proof (cases "?items = []")
    case True
    then show ?thesis by (simp add: processEmbeddingQueue_def)
  next
    case False
    have "embedding_queue (snd (processEmbeddingQueue provider now b m d)) =
            map (revert_all msg ?items)
              (update_where (\<lambda>r. eq_id r \<in> set (map eq_id ?items))
                 (\<lambda>r. r\<lparr>eq_status := QProcessing\<rparr>) ?q)"
      using False fail by (simp add: processEmbeddingQueue_def Let_def foldl_revert_item)
    also have "\<dots> = map (\<lambda>t. if t \<in> set ?items then reverted msg t else t) ?q"
      unfolding update_where_def map_map o_def
    proof (rule map_cong[OF refl])
      fix t assume t: "t \<in> set ?q"
      show "revert_all msg ?items
              (if eq_id t \<in> set (map eq_id ?items) then t\<lparr>eq_status := QProcessing\<rparr> else t) =
            (if t \<in> set ?items then reverted msg t else t)"
      proof (cases "t \<in> set ?items")
        case True
        then have "eq_id t \<in> set (map eq_id ?items)" by simp
        moreover have "revert_all msg ?items (t\<lparr>eq_status := QProcessing\<rparr>) =
            (t\<lparr>eq_status := QProcessing\<rparr>)\<lparr>eq_status := QPending, attempts := attempts t + 1,
                last_error := Some msg\<rparr>"
          by (rule revert_all_hit[OF di True]) simp
        ultimately show ?thesis using True by (simp add: reverted_def)
      next
        case False
        have "eq_id t \<notin> eq_id ` set ?items"
        proof
          assume "eq_id t \<in> eq_id ` set ?items"
          then obtain it where it: "it \<in> set ?items" "eq_id t = eq_id it" by auto
          then have "t = it" using same_id_same_row[OF dist t] sub by auto
          with it False show False by simp
        qed
        then show ?thesis using False by (simp add: revert_all_other)
      qed
    qed
    finally show ?thesis .
  qed
qed

lemma touches_only_refl: "touches_only ids q q"
  unfolding touches_only_def by (rule exI[of _ "\<lambda>r. r"]) simp

lemma touches_only_trans:
  assumes "touches_only ids q q'" "touches_only ids q' q''"
  shows "touches_only ids q q''"
proof -
  from assms(1) obtain h where h: "q' = map h q" "\<forall>r. eq_id (h r) = eq_id r"
      "\<forall>r. eq_id r \<notin> ids \<longrightarrow> h r = r" unfolding touches_only_def by blast
  from assms(2) obtain g where g: "q'' = map g q'" "\<forall>r. eq_id (g r) = eq_id r"
      "\<forall>r. eq_id r \<notin> ids \<longrightarrow> g r = r" unfolding touches_only_def by blast
  show ?thesis unfolding touches_only_def
  proof (intro exI[of _ "\<lambda>r. g (h r)"] conjI allI impI)
    show "q'' = map (\<lambda>r. g (h r)) q" using h(1) g(1) by simp
    show "eq_id (g (h r)) = eq_id r" for r using h(2) g(2) by simp
    show "g (h r) = r" if "eq_id r \<notin> ids" for r using that h(3) g(3) by simp
  qed
qed

lemma touches_only_update:
  assumes "\<And>r. p r \<Longrightarrow> eq_id r \<in> ids" "\<And>r. eq_id (f r) = eq_id r"
  shows "touches_only ids q (update_where p f q)"
  unfolding touches_only_def update_where_def
  by (rule exI[of _ "\<lambda>r. if p r then f r else r"]) (use assms in auto)

lemma touches_only_set_queue_item:
  assumes "i \<in> ids" "\<And>r. eq_id (f r) = eq_id r"
  shows "touches_only ids (embedding_queue d) (embedding_queue (set_queue_item i f d))"
proof -
  have "touches_only ids (embedding_queue d)
          (update_where (\<lambda>r. eq_id r = i) f (embedding_queue d))"
    by (rule touches_only_update) (use assms in auto)
  then show ?thesis by (simp add: set_queue_item_def)
qed

lemma queue_write_embedding: "embedding_queue (write_embedding now item e d) = embedding_queue d"
  by (simp add: write_embedding_def)

lemma touches_only_revert_item:
  "eq_id item \<in> ids \<Longrightarrow>
   touches_only ids (embedding_queue d) (embedding_queue (revert_item m d item))"
  unfolding revert_item_def by (rule touches_only_set_queue_item) simp_all

lemma touches_only_embed_item:
  assumes "eq_id (fst pair) \<in> ids"
  shows "touches_only ids (embedding_queue (fst acc))
           (embedding_queue (fst (embed_item now acc pair)))"
proof -
  obtain d p f where acc: "acc = (d, p, f)" by (cases acc) auto
  obtain item e where pair: "pair = (item, e)" by (cases pair) auto
  have i: "eq_id item \<in> ids" using assms pair by simp
  have c: "touches_only ids (embedding_queue d)
     (embedding_queue (set_queue_item (eq_id item)
                     (\<lambda>r. r\<lparr>eq_status := QCompleted, eq_embedding := Some x,
                            processed_at := Some now\<rparr>)
                     (write_embedding now item x d)))" for x
    using touches_only_set_queue_item[OF i, of _ "write_embedding now item x d"]
    by (simp add: queue_write_embedding)
  show ?thesis
    unfolding acc pair embed_item_def
    by (cases e) (simp_all add: touches_only_revert_item[OF i] c)
qed

lemma touches_only_foldl_embed:
  assumes "\<And>pair. pair \<in> set pairs \<Longrightarrow> eq_id (fst pair) \<in> ids"
  shows "touches_only ids (embedding_queue (fst acc))
           (embedding_queue (fst (foldl (embed_item now) acc pairs)))"
  using assms
proof (induction pairs arbitrary: acc)
  case Nil show ?case by (simp add: touches_only_refl)
next
  case (Cons a pairs)
  have 1: "touches_only ids (embedding_queue (fst acc))
             (embedding_queue (fst (embed_item now acc a)))"
    by (rule touches_only_embed_item) (simp add: Cons.prems)
  have 2: "touches_only ids (embedding_queue (fst (embed_item now acc a)))
             (embedding_queue (fst (foldl (embed_item now) (embed_item now acc a) pairs)))"
    by (rule Cons.IH) (simp add: Cons.prems)
  show ?case using touches_only_trans[OF 1 2] by simp
qed

lemma touches_only_foldl_revert:
  assumes "\<And>item. item \<in> set items \<Longrightarrow> eq_id item \<in> ids"
  shows "touches_only ids (embedding_queue d)
           (embedding_queue (foldl (revert_item m) d items))"
  using assms
proof (induction items arbitrary: d)
  case Nil show ?case by (simp add: touches_only_refl)
next
  case (Cons a items)
  have 1: "touches_only ids (embedding_queue d) (embedding_queue (revert_item m d a))"
    by (rule touches_only_revert_item) (simp add: Cons.prems)
  have 2: "touches_only ids (embedding_queue (revert_item m d a))
             (embedding_queue (foldl (revert_item m) (revert_item m d a) items))"
    by (rule Cons.IH) (simp add: Cons.prems)
  show ?case using touches_only_trans[OF 1 2] by simp
qed

lemma snd_case_triple: "snd (case x of (d2, p, f) \<Rightarrow> ((p, f), d2)) = fst x"
  by (cases x) auto

lemma run_touches_only_claimed:
  "touches_only (eq_id ` set (claim_items b m (embedding_queue d))) (embedding_queue d)
     (embedding_queue (snd (processEmbeddingQueue provider now b m d)))"
proof -
  let ?items = "claim_items b m (embedding_queue d)"
  let ?ids = "eq_id ` set ?items"
  let ?d1 = "d\<lparr>embedding_queue :=
                 update_where (\<lambda>r. eq_id r \<in> set (map eq_id ?items))
                   (\<lambda>r. r\<lparr>eq_status := QProcessing\<rparr>) (embedding_queue d)\<rparr>"
  have 1: "touches_only ?ids (embedding_queue d) (embedding_queue ?d1)"
    by (simp add: touches_only_update)
  show ?thesis
  proof (cases "?items = []")
    case True then show ?thesis by (simp add: processEmbeddingQueue_def touches_only_refl)
  next
    case False
    show ?thesis
    proof (cases "provider (map text_to_embed ?items)")
      case (Inl msg)
      have "touches_only ?ids (embedding_queue ?d1)
              (embedding_queue (foldl (revert_item msg) ?d1 ?items))"
        by (rule touches_only_foldl_revert) simp
      from touches_only_trans[OF 1 this] show ?thesis
        using False Inl by (simp add: processEmbeddingQueue_def Let_def)
    next
      case (Inr embeddings)
      let ?pairs = "zip ?items (map Some embeddings @
                                      replicate (length ?items - length embeddings) None)"
      have "touches_only ?ids (embedding_queue (fst (?d1, 0::nat, 0::nat)))
              (embedding_queue (fst (foldl (embed_item now) (?d1, 0, 0) ?pairs)))"
      proof (rule touches_only_foldl_embed)
        fix pair assume "pair \<in> set ?pairs"
        then have "(fst pair, snd pair) \<in> set ?pairs" by (simp only: prod.collapse)
        then have "fst pair \<in> set ?items" by (rule set_zip_leftD)
        then show "eq_id (fst pair) \<in> ?ids" by simp
      qed
      then have 2: "touches_only ?ids (embedding_queue ?d1)
              (embedding_queue (fst (foldl (embed_item now) (?d1, 0, 0) ?pairs)))" by simp
      from touches_only_trans[OF 1 2] show ?thesis
        using False Inr
        by (simp add: processEmbeddingQueue_def Let_def snd_case_triple)
    qed
  qed
qed

lemma exhausted_not_claimed:
  assumes dist: "distinct (map eq_id (embedding_queue d))"
      and i: "i < length (embedding_queue d)"
      and ex: "m \<le> attempts (embedding_queue d ! i)"
  shows "embedding_queue (snd (processEmbeddingQueue provider now b m d)) ! i =
           embedding_queue d ! i"
proof -
  let ?q = "embedding_queue d"
  let ?t = "?q ! i"
  let ?items = "claim_items b m ?q"
  have t: "?t \<in> set ?q" using i by simp
  have sub: "set ?items \<subseteq> set ?q" using set_claim_items[of b m ?q] by auto
  have "eq_id ?t \<notin> eq_id ` set ?items"
  proof
    assume "eq_id ?t \<in> eq_id ` set ?items"
    then obtain it where it: "it \<in> set ?items" "eq_id ?t = eq_id it" by auto
    then have "?t = it" using same_id_same_row[OF dist t] sub by auto
    with it(1) set_claim_items[of b m ?q] have "attempts ?t < m" by auto
    with ex show False by simp
  qed
  moreover obtain h where h: "embedding_queue (snd (processEmbeddingQueue provider now b m d)) = map h ?q"
      "\<forall>r. eq_id r \<notin> eq_id ` set ?items \<longrightarrow> h r = r"
    using run_touches_only_claimed[of b m d provider now] unfolding touches_only_def by blast
  ultimately show ?thesis using i by simp
qed

lemma run_length:
  "length (embedding_queue (snd (processEmbeddingQueue provider now b m d))) =
     length (embedding_queue d)"
  using run_touches_only_claimed[of b m d provider now] unfolding touches_only_def by auto

text \<open>
  Claim C7 (as amended). In every run of the embedding worker over a queue with unique ids:
  when the provider fails for the whole batch, every claimed task ends the run with status
  \<open>pending\<close>, its \<open>attempts\<close> incremented by one and the error stored, and every other
  task is unchanged; the claimed tasks are pending tasks with \<open>attempts < max_attempts\<close>;
  and a task whose \<open>attempts\<close> has reached \<open>max_attempts\<close> is not claimed and is left
  exactly as it was, whatever the provider does. Its status is whatever it was before,
  \<open>pending\<close> after a failed batch; the worker never writes \<open>failed\<close>.
\<close>

theorem embedding_worker_retry:
  assumes "distinct (map eq_id (embedding_queue d))"
  shows "(provider (map text_to_embed (claim_items b m (embedding_queue d))) = Inl msg \<longrightarrow>
            embedding_queue (snd (processEmbeddingQueue provider now b m d)) =
              map (\<lambda>t. if t \<in> set (claim_items b m (embedding_queue d))
                        then reverted msg t else t)
                  (embedding_queue d)) \<and>
         (\<forall>t \<in> set (claim_items b m (embedding_queue d)).
            t \<in> set (embedding_queue d) \<and> eq_status t = QPending \<and> attempts t < m \<and>
            eq_status (reverted msg t) = QPending \<and>
            attempts (reverted msg t) = attempts t + 1) \<and>
         length (embedding_queue (snd (processEmbeddingQueue provider now b m d))) =
           length (embedding_queue d) \<and>
         (\<forall>i < length (embedding_queue d).
            m \<le> attempts (embedding_queue d ! i) \<longrightarrow>
            embedding_queue (snd (processEmbeddingQueue provider now b m d)) ! i =
              embedding_queue d ! i)"
proof (intro conjI impI ballI allI)
  assume "provider (map text_to_embed (claim_items b m (embedding_queue d))) = Inl msg"
  with assms show "embedding_queue (snd (processEmbeddingQueue provider now b m d)) =
              map (\<lambda>t. if t \<in> set (claim_items b m (embedding_queue d))
                        then reverted msg t else t)
                  (embedding_queue d)"
    by (rule batch_failure_queue)
next
  fix t assume t: "t \<in> set (claim_items b m (embedding_queue d))"
  with set_claim_items[of b m "embedding_queue d"]
  show "t \<in> set (embedding_queue d)" "eq_status t = QPending" "attempts t < m" by auto
  show "eq_status (reverted msg t) = QPending" "attempts (reverted msg t) = attempts t + 1"
    by (simp_all add: reverted_def)
next
  show "length (embedding_queue (snd (processEmbeddingQueue provider now b m d))) =
           length (embedding_queue d)" by (rule run_length)
next
  fix i assume "i < length (embedding_queue d)" "m \<le> attempts (embedding_queue d ! i)"
  with assms show "embedding_queue (snd (processEmbeddingQueue provider now b m d)) ! i =
              embedding_queue d ! i" by (rule exhausted_not_claimed)
qed

theorem embedding_worker_retry_witness:
  "distinct (map eq_id (embedding_queue tired_db)) \<and>
   claim_items 50 3 (embedding_queue tired_db) = [tired_task] \<and>
   embedding_queue (snd (processEmbeddingQueue provider_down 10 50 3 tired_db)) =
     [reverted ''OpenAI API error: server error'' tired_task] \<and>
   map task_state (embedding_queue after_third_failure) = [(QPending, 3)] \<and>
   distinct (map eq_id (embedding_queue after_third_failure)) \<and>
   embedding_queue (snd (processEmbeddingQueue provider_down 20 50 3 after_third_failure)) ! 0 =
     embedding_queue after_third_failure ! 0"
proof -
  have d1: "distinct (map eq_id (embedding_queue tired_db))" by code_simp
  have c1: "claim_items 50 3 (embedding_queue tired_db) = [tired_task]" by code_simp
  have q1: "embedding_queue tired_db = [tired_task]" by code_simp
  have p1: "provider_down (map text_to_embed (claim_items 50 3 (embedding_queue tired_db))) =
              Inl ''OpenAI API error: server error''"
    by (simp add: provider_down_def)
  have s3: "map task_state (embedding_queue after_third_failure) = [(QPending, 3)]"
    by code_simp
  have d2: "distinct (map eq_id (embedding_queue after_third_failure))" by code_simp
  have l2: "0 < length (embedding_queue after_third_failure)" by code_simp
  have a2: "3 \<le> attempts (embedding_queue after_third_failure ! 0)" by code_simp
  have first: "embedding_queue (snd (processEmbeddingQueue provider_down 10 50 3 tired_db)) =
     [reverted ''OpenAI API error: server error'' tired_task]"
  proof -
    have c1q: "claim_items 50 3 [tired_task] = [tired_task]" using c1 by (simp only: q1)
    show ?thesis
      using embedding_worker_retry[OF d1, of provider_down 50 3
          "''OpenAI API error: server error''" 10] p1
      by (simp add: q1 c1q)
  qed
  have second: "embedding_queue
       (snd (processEmbeddingQueue provider_down 20 50 3 after_third_failure)) ! 0 =
     embedding_queue after_third_failure ! 0"
    using embedding_worker_retry[OF d2, of provider_down 50 3 "[]" 20] l2 a2 by blast
  show ?thesis using d1 c1 first s3 d2 second by blast
qed

text \<open>
  Claim C7 as stated fails in its second half: a task that reaches \<open>max_attempts\<close> is not
  set to \<open>failed\<close>. After the third failed batch the task above is \<open>pending\<close> with three
  attempts, the worker reports no failed task, and a further run leaves it as it is.
\<close>

theorem exhausted_task_stays_pending:
  "attempts tired_task = 2 \<and>
   map task_state (embedding_queue after_third_failure) = [(QPending, 3)] \<and>
   wr_failed_count (fst (embedding_worker provider_down 10 None None tired_db)) = 0 \<and>
   map task_state (embedding_queue after_fourth_run) = [(QPending, 3)]"
  by code_simp

section \<open>Ingestion stager: staging the same bytes again\<close>

lemma single_distinct_hash:
  assumes "distinct (map ri_file_hash rows)"
  shows "single (filter (\<lambda>r. ri_file_hash r = h) rows) = None \<longleftrightarrow> h \<notin> set (map ri_file_hash rows)"
  using assms
proof (induction rows)
  case Nil then show ?case by (simp add: single_def)
next
  case (Cons a rows)
  show ?case
  proof (cases "ri_file_hash a = h")
    case True
    with Cons.prems have "h \<notin> set (map ri_file_hash rows)" by auto
    then have "filter (\<lambda>r. ri_file_hash r = h) rows = []" by (auto simp: filter_empty_conv)
    with True show ?thesis by (simp add: single_def)
  next
    case False
    with Cons show ?thesis by auto
  qed
qed

lemma stage_known:
  assumes "distinct (hashes d)" "computeHash env (content att) \<in> set (hashes d)"
  shows "stage_attachment env now form (d, ids) att = (d, ids)"
proof -
  have "single (filter (\<lambda>r. ri_file_hash r = computeHash env (content att)) (raw_ingestions d)) \<noteq> None"
    using single_distinct_hash[of "raw_ingestions d" "computeHash env (content att)"] assms
    by (simp add: hashes_def)
  then show ?thesis by (auto simp: stage_attachment_def Let_def)
qed

lemma hashes_create:
  "hashes (fst (create_ingestion env now form att h d)) = hashes d @ [h]"
  by (simp add: create_ingestion_def hashes_def Let_def upload_def)

lemma stage_hashes:
  assumes "distinct (hashes d)" "stage_attachment env now form (d, ids) att = (d', ids')"
  shows "distinct (hashes d') \<and> set (hashes d') = insert (computeHash env (content att)) (set (hashes d))"
proof (cases "computeHash env (content att) \<in> set (hashes d)")
  case True
  with assms stage_known[OF assms(1) True, of now form ids] show ?thesis by auto
next
  case False
  then have "single (filter (\<lambda>r. ri_file_hash r = computeHash env (content att)) (raw_ingestions d)) = None"
    using single_distinct_hash[of "raw_ingestions d" "computeHash env (content att)"] assms(1)
    by (simp add: hashes_def)
  with assms(2) have "d' = fst (create_ingestion env now form att (computeHash env (content att)) d)"
    by (auto simp: stage_attachment_def Let_def)
  then show ?thesis using False assms(1) by (simp add: hashes_create)
qed

lemma fold_stage_hashes:
  assumes "distinct (hashes d)" "foldl (stage_attachment env now form) (d, ids) atts = (d', ids')"
  shows "distinct (hashes d') \<and>
         set (hashes d') = set (hashes d) \<union> (\<lambda>a. computeHash env (content a)) ` set atts"
  using assms
proof (induction atts arbitrary: d ids)
  case Nil then show ?case by simp
next
  case (Cons a atts)
  obtain d1 ids1 where s: "stage_attachment env now form (d, ids) a = (d1, ids1)"
    by (cases "stage_attachment env now form (d, ids) a") auto
  from stage_hashes[OF Cons.prems(1) s]
  have 1: "distinct (hashes d1)"
    and 2: "set (hashes d1) = insert (computeHash env (content a)) (set (hashes d))" by auto
  from Cons.prems(2) s have "foldl (stage_attachment env now form) (d1, ids1) atts = (d', ids')"
    by simp
  from Cons.IH[OF 1 this] 2 show ?case by auto
qed

lemma fold_stage_known:
  assumes "distinct (hashes d)" "\<And>a. a \<in> set atts \<Longrightarrow> computeHash env (content a) \<in> set (hashes d)"
  shows "foldl (stage_attachment env now form) (d, ids) atts = (d, ids)"
  using assms by (induction atts) (simp_all add: stage_known)

text \<open>
  Claim C6 (as amended). When no two batches on record share a file hash, and an email has
  been staged, then staging any email whose CSV files all have bytes that were in the
  first one (from whatever sender, at whatever time) writes nothing: the database,
  blob store included, is left exactly as it was, and no parse is requested. The reply
  lists no batch id for the repeated files; in particular it does not return the id of the
  first batch.
\<close>

theorem restaging_writes_nothing:
  assumes "distinct (hashes d)"
      and "email_ingest env now1 form1 d = (r1, d1)"
      and "content ` set (csv_attachments form2) \<subseteq> content ` set (csv_attachments form1)"
  shows "snd (email_ingest env now2 form2 d1) = d1 \<and>
         ingestion_ids (fst (email_ingest env now2 form2 d1)) = [] \<and>
         parse_requests (fst (email_ingest env now2 form2 d1)) = []"
proof (cases "csv_attachments form2 = []")
  case True
  then show ?thesis by (simp add: email_ingest_def)
next
  case False
  with assms(3) have ne: "csv_attachments form1 \<noteq> []" by auto
  obtain x ids where f: "foldl (stage_attachment env now1 form1) (d, []) (csv_attachments form1)
                            = (x, ids)"
    by (cases "foldl (stage_attachment env now1 form1) (d, []) (csv_attachments form1)") auto
  with assms(2) ne have x: "x = d1" by (simp add: email_ingest_def Let_def)
  from fold_stage_hashes[OF assms(1) f] x
  have dist: "distinct (hashes d1)"
    and hs: "set (hashes d1) =
             set (hashes d) \<union> (\<lambda>a. computeHash env (content a)) ` set (csv_attachments form1)"
    by auto
  have known: "computeHash env (content a) \<in> set (hashes d1)"
    if "a \<in> set (csv_attachments form2)" for a
  proof -
    from that assms(3) obtain b where "b \<in> set (csv_attachments form1)" "content a = content b"
      by (metis (no_types, lifting) image_iff subsetD)
    then show ?thesis using hs by auto
  qed
  have "foldl (stage_attachment env now2 form2) (d1, []) (csv_attachments form2) = (d1, [])"
    using dist known by (rule fold_stage_known)
  then show ?thesis using False by (simp add: email_ingest_def Let_def)
qed

theorem restaging_writes_nothing_witness:
  "distinct (hashes empty_db) \<and>
   content ` set (csv_attachments zillow_mail) \<subseteq> content ` set (csv_attachments zillow_mail) \<and>
   hashes (snd first_staging) = [''sha256:Email,Phone''] \<and>
   snd second_staging = snd first_staging \<and>
   ingestion_ids (fst second_staging) = [] \<and>
   parse_requests (fst second_staging) = []"
proof -
  have d: "distinct (hashes empty_db)" by (simp add: hashes_def empty_db_def)
  have r: "email_ingest test_env 3 zillow_mail empty_db = (fst first_staging, snd first_staging)"
    by (simp add: first_staging_def)
  have h: "hashes (snd first_staging) = [''sha256:Email,Phone'']" by code_simp
  show ?thesis
    using restaging_writes_nothing[OF d r subset_refl, of 4] d h
    by (simp add: second_staging_def)
qed

text \<open>
  Claim C6 as stated fails in its first half: the second call skips the file and its reply
  carries no batch id, although the first call returned the id of the batch it created.
\<close>

theorem second_staging_returns_no_id:
  "ingestion_ids (fst first_staging) = [0] \<and>
   map ri_id (raw_ingestions (snd first_staging)) = [0] \<and>
   ingestion_ids (fst second_staging) = [] \<and>
   raw_ingestions (snd second_staging) = raw_ingestions (snd first_staging)"
  by code_simp

section \<open>Match scorer: the rows returned\<close>

lemma set_distinct_on: "set (distinct_on ms) \<subseteq> set ms"
  by (induction ms rule: distinct_on.induct) auto

lemma ids_distinct_on: "fub_lead_id ` set (distinct_on ms) = fub_lead_id ` set ms"
proof (induction ms rule: distinct_on.induct)
  case 1 show ?case by simp
next
  case (2 m ms)
  have "fub_lead_id ` set (m # ms) =
          insert (fub_lead_id m) (fub_lead_id ` set (filter (\<lambda>x. fub_lead_id x \<noteq> fub_lead_id m) ms))"
    by auto
  with 2 show ?case by simp
qed

lemma distinct_ids_distinct_on: "distinct (map fub_lead_id (distinct_on ms))"
proof (induction ms rule: distinct_on.induct)
  case 1 show ?case by simp
next
  case (2 m ms)
  have "fub_lead_id m \<notin> fub_lead_id ` set (distinct_on (filter (\<lambda>x. fub_lead_id x \<noteq> fub_lead_id m) ms))"
    by (auto simp: ids_distinct_on)
  with 2 show ?case by simp
qed

lemma distinct_on_first:
  "r \<in> set (distinct_on ms) \<Longrightarrow> find (\<lambda>x. fub_lead_id x = fub_lead_id r) ms = Some r"
proof (induction ms rule: distinct_on.induct)
  case 1 then show ?case by simp
next
  case (2 m ms)
  show ?case
  proof (cases "r = m")
    case True then show ?thesis by simp
  next
    case False
    with "2.prems" have r: "r \<in> set (distinct_on (filter (\<lambda>x. fub_lead_id x \<noteq> fub_lead_id m) ms))"
      by simp
    then have "r \<in> set (filter (\<lambda>x. fub_lead_id x \<noteq> fub_lead_id m) ms)"
      using set_distinct_on by blast
    then have ne: "fub_lead_id m \<noteq> fub_lead_id r" by auto
    have "find (\<lambda>x. fub_lead_id x = fub_lead_id r) (filter (\<lambda>x. fub_lead_id x \<noteq> fub_lead_id m) ms) = Some r"
      using "2.IH" r by simp
    moreover have "find (\<lambda>x. fub_lead_id x = fub_lead_id r) (filter (\<lambda>x. fub_lead_id x \<noteq> fub_lead_id m) ms)
        = find (\<lambda>x. fub_lead_id x = fub_lead_id r) ms"
      using ne by (induction ms) auto
    ultimately show ?thesis using ne by simp
  qed
qed

lemma sorted_ids_distinct_on:
  "sorted (map fub_lead_id ms) \<Longrightarrow> sorted (map fub_lead_id (distinct_on ms))"
proof (induction ms rule: distinct_on.induct)
  case 1 show ?case by simp
next
  case (2 m ms)
  let ?f = "filter (\<lambda>x. fub_lead_id x \<noteq> fub_lead_id m) ms"
  from "2.prems" have s: "sorted (map fub_lead_id ms)" and le: "\<forall>x\<in>set ms. fub_lead_id m \<le> fub_lead_id x"
    by auto
  have "sorted (map fub_lead_id ?f)" using s by (simp add: sorted_filter)
  then have "sorted (map fub_lead_id (distinct_on ?f))" by (rule "2.IH")
  moreover have "\<forall>x\<in>set (distinct_on ?f). fub_lead_id m \<le> fub_lead_id x"
    using le set_distinct_on[of ?f] by auto
  ultimately show ?case by simp
qed

lemma find_is_hd_filter: "find P xs = Some r \<Longrightarrow> filter P xs \<noteq> [] \<and> hd (filter P xs) = r"
  by (induction xs) (auto split: if_splits)

lemma order_matches_group:
  "filter (\<lambda>x. fub_lead_id x = k) (order_matches ms) =
   filter (\<lambda>x. fub_lead_id x = k) (sort_key (\<lambda>m. - confidence m) ms)"
  unfolding order_matches_def by (rule sort_key_stable)

lemma sorted_hd_min: "sorted (map f xs) \<Longrightarrow> xs \<noteq> [] \<Longrightarrow> x \<in> set xs \<Longrightarrow> f (hd xs) \<le> f x"
  by (cases xs) auto

lemma kept_row_is_best:
  assumes r: "r \<in> set (distinct_on (order_matches ms))"
      and s: "s \<in> set ms" "fub_lead_id s = fub_lead_id r"
  shows "confidence s \<le> confidence r"
proof -
  let ?k = "fub_lead_id r"
  let ?g = "filter (\<lambda>x. fub_lead_id x = ?k) (sort_key (\<lambda>m. - confidence m) ms)"
  from distinct_on_first[OF r] have "find (\<lambda>x. fub_lead_id x = ?k) (order_matches ms) = Some r" .
  from find_is_hd_filter[OF this] have ne: "?g \<noteq> []" and hd: "hd ?g = r"
    by (simp_all add: order_matches_group)
  have "sorted (map (\<lambda>m. - confidence m) ?g)"
    by (simp add: sorted_filter)
  moreover have "s \<in> set ?g" using s by simp
  ultimately have "- confidence (hd ?g) \<le> - confidence s"
    using ne sorted_hd_min[of "\<lambda>m. - confidence m" ?g s] by blast
  then show ?thesis using hd by simp
qed

lemma sorted_order_matches: "sorted (map fub_lead_id (order_matches ms))"
  by (simp add: order_matches_def)

lemma set_order_matches: "set (order_matches ms) = set ms"
  by (simp add: order_matches_def)

lemma find_conj: "find P xs = Some r \<Longrightarrow> Q r \<Longrightarrow> find (\<lambda>x. P x \<and> Q x) xs = Some r"
  by (induction xs) (auto split: if_splits)

lemma kept_row_is_earliest:
  assumes r: "r \<in> set (distinct_on (order_matches ms))"
  shows "find (\<lambda>x. fub_lead_id x = fub_lead_id r \<and> confidence x = confidence r) ms = Some r"
proof -
  let ?k = "fub_lead_id r" and ?c = "confidence r"
  let ?s = "sort_key (\<lambda>m. - confidence m) ms"
  have find_filter: "find (\<lambda>x. P x \<and> Q x) xs = find P (filter Q xs)" for P Q and xs :: "match_result list"
    by (induction xs) auto
  have find_hd: "find P xs = (case filter P xs of [] \<Rightarrow> None | y # _ \<Rightarrow> Some y)"
    for P and xs :: "match_result list"
    by (induction xs) auto
  from distinct_on_first[OF r] have "find (\<lambda>x. fub_lead_id x = ?k) (order_matches ms) = Some r" .
  then have g: "filter (\<lambda>x. fub_lead_id x = ?k) ?s \<noteq> []" "hd (filter (\<lambda>x. fub_lead_id x = ?k) ?s) = r"
    using find_is_hd_filter[of "\<lambda>x. fub_lead_id x = ?k" "order_matches ms" r]
    by (simp_all add: order_matches_group)
  then have f1: "find (\<lambda>x. fub_lead_id x = ?k) ?s = Some r"
    by (cases "filter (\<lambda>x. fub_lead_id x = ?k) ?s") (auto simp: find_hd)
  have f2: "find (\<lambda>x. fub_lead_id x = ?k \<and> confidence x = ?c) ?s = Some r"
    using f1 by (rule find_conj) simp
  have "filter (\<lambda>x. - confidence x = - ?c) ?s = filter (\<lambda>x. - confidence x = - ?c) ms"
    by (rule sort_key_stable)
  then have st: "filter (\<lambda>x. confidence x = ?c) ?s = filter (\<lambda>x. confidence x = ?c) ms" by simp
  have "find (\<lambda>x. fub_lead_id x = ?k \<and> confidence x = ?c) ms =
        find (\<lambda>x. fub_lead_id x = ?k) (filter (\<lambda>x. confidence x = ?c) ms)"
    by (rule find_filter)
  also have "\<dots> = find (\<lambda>x. fub_lead_id x = ?k) (filter (\<lambda>x. confidence x = ?c) ?s)"
    by (simp only: st)
  also have "\<dots> = find (\<lambda>x. fub_lead_id x = ?k \<and> confidence x = ?c) ?s"
    by (rule find_filter[symmetric])
  finally show ?thesis using f2 by simp
qed

text \<open>
  Claim C3 (as amended). For every source lead and CRM corpus, \<open>find_fub_matches\<close> with
  limit \<open>n\<close> returns at most \<open>n\<close> rows, one per CRM lead, each a signal of that lead whose
  confidence is the maximum over the signals of the same CRM lead. The rows are in ascending
  order of CRM lead id, not of confidence, and the limit keeps the first \<open>n\<close> in that order:
  the result is the prefix of the unlimited result, which has one row for every CRM lead
  with a signal. (Between two signals of one CRM lead with equal confidence the query leaves
  the choice open; in the stable execution modelled here it is the earlier in the order
  email, phone, address, see \<open>kept_row_is_earliest\<close>.)
\<close>

theorem find_fub_matches_rows:
  assumes "find (\<lambda>l. sl_id l = lead) (source_leads d) = Some v"
  shows "length (find_fub_matches sim d lead n) \<le> n \<and>
         distinct (map fub_lead_id (find_fub_matches sim d lead n)) \<and>
         sorted (map fub_lead_id (find_fub_matches sim d lead n)) \<and>
         (\<forall>r \<in> set (find_fub_matches sim d lead n).
            r \<in> set (signals sim v (fub_leads d)) \<and>
            (\<forall>s \<in> set (signals sim v (fub_leads d)).
               fub_lead_id s = fub_lead_id r \<longrightarrow> confidence s \<le> confidence r)) \<and>
         find_fub_matches sim d lead n =
           take n (find_fub_matches sim d lead (length (signals sim v (fub_leads d)))) \<and>
         fub_lead_id ` set (find_fub_matches sim d lead (length (signals sim v (fub_leads d)))) =
           fub_lead_id ` set (signals sim v (fub_leads d))"
proof -
  let ?S = "signals sim v (fub_leads d)"
  let ?full = "distinct_on (order_matches ?S)"
  have res: "find_fub_matches sim d lead k = take k ?full" for k
    using assms by (simp add: find_fub_matches_def)
  have len: "length ?full \<le> length ?S"
  proof -
    have "length ?full = length (map fub_lead_id ?full)" by simp
    also have "\<dots> = card (fub_lead_id ` set ?full)"
      using distinct_card[OF distinct_ids_distinct_on[of "order_matches ?S"]] by simp
    also have "\<dots> = card (fub_lead_id ` set ?S)"
      by (simp add: ids_distinct_on set_order_matches)
    also have "\<dots> \<le> card (set ?S)" by (rule card_image_le) simp
    also have "\<dots> \<le> length ?S" by (rule card_length)
    finally show ?thesis .
  qed
  have full: "find_fub_matches sim d lead (length ?S) = ?full" using len by (simp add: res)
  have 1: "length (take n ?full) \<le> n" by simp
  have 2: "distinct (map fub_lead_id (take n ?full))"
    using distinct_ids_distinct_on[of "order_matches ?S"] by (simp add: take_map[symmetric])
  have 3: "sorted (map fub_lead_id (take n ?full))"
    using sorted_ids_distinct_on[OF sorted_order_matches, of ?S]
    by (simp add: take_map[symmetric])
  have 4: "r \<in> set ?S \<and> (\<forall>s \<in> set ?S. fub_lead_id s = fub_lead_id r \<longrightarrow> confidence s \<le> confidence r)"
    if "r \<in> set (take n ?full)" for r
  proof -
    from that have r: "r \<in> set ?full" by (rule in_set_takeD)
    then have "r \<in> set ?S" using set_distinct_on[of "order_matches ?S"] set_order_matches by auto
    then show ?thesis using kept_row_is_best[OF r] by blast
  qed
  have 5: "fub_lead_id ` set ?full = fub_lead_id ` set ?S"
    by (simp add: ids_distinct_on set_order_matches)
  show ?thesis unfolding full unfolding res using 1 2 3 4 5 by blast
qed

theorem find_fub_matches_rows_witness:
  "find (\<lambda>l. sl_id l = 10) (source_leads scorer_db) =
     Some (new_lead 10 1 (Some ''John.Smith@Example.COM'') (Some ''(555) 123-4567'') None) \<and>
   length (find_fub_matches trigram_similarity scorer_db 10 5) \<le> 5 \<and>
   distinct (map fub_lead_id (find_fub_matches trigram_similarity scorer_db 10 5)) \<and>
   sorted (map fub_lead_id (find_fub_matches trigram_similarity scorer_db 10 5)) \<and>
   map fub_lead_id (find_fub_matches trigram_similarity scorer_db 10 5) = [1, 2] \<and>
   map match_type (find_fub_matches trigram_similarity scorer_db 10 5) =
     [''phone_exact'', ''email_exact'']"
proof -
  have f: "find (\<lambda>l. sl_id l = 10) (source_leads scorer_db) =
     Some (new_lead 10 1 (Some ''John.Smith@Example.COM'') (Some ''(555) 123-4567'') None)"
    by (simp add: scorer_db_def empty_db_def new_lead_def)
  have i: "map fub_lead_id (find_fub_matches trigram_similarity scorer_db 10 5) = [1, 2]"
    by code_simp
  have t: "map match_type (find_fub_matches trigram_similarity scorer_db 10 5) =
     [''phone_exact'', ''email_exact'']"
    by code_simp
  show ?thesis
    using find_fub_matches_rows[OF f, of trigram_similarity 5] f i t by blast
qed

text \<open>
  Claim C3 as stated fails in its last part: the rows are not sorted by descending
  confidence. For the lead above the phone match on CRM lead 1 (0.95) precedes the email
  match on CRM lead 2 (1.00), and with limit 1 only the phone match is returned.
\<close>

theorem scorer_rows_ordered_by_id:
  "map confidence (find_fub_matches trigram_similarity scorer_db 10 5) = [95 / 100, 1] \<and>
   \<not> sorted (rev (map confidence (find_fub_matches trigram_similarity scorer_db 10 5))) \<and>
   map match_type (find_fub_matches trigram_similarity scorer_db 10 1) = [''phone_exact'']"
  by code_simp

section \<open>Matcher: which results become review candidates\<close>

lemma candidates_update_source_lead [simp]:
  "match_candidates (update_source_lead i f d) = match_candidates d"
  by (simp add: update_source_lead_def)

lemma candidates_mark_unmatched [simp]:
  "match_candidates (mark_unmatched now i d) = match_candidates d"
  by (simp add: mark_unmatched_def)










lemma candidates_of_source_update [simp]:
  "candidates_of (update_source_lead i f d) lead = candidates_of d lead"
  by (simp add: candidates_of_def)

lemma candidates_of_unmatched [simp]:
  "candidates_of (mark_unmatched now i d) lead = candidates_of d lead"
  by (simp add: candidates_of_def)








section \<open>Review resolver: approving a candidate\<close>

lemma lead_matches_update_source_lead [simp]:
  "lead_matches (update_source_lead i f d) = lead_matches d"
  by (simp add: update_source_lead_def)

lemma lead_matches_update_candidates [simp]:
  "lead_matches (update_candidates p f d) = lead_matches d"
  by (simp add: update_candidates_def)

lemma source_leads_update_candidates [simp]:
  "source_leads (update_candidates p f d) = source_leads d"
  by (simp add: update_candidates_def)

lemma match_candidates_update_candidates [simp]:
  "match_candidates (update_candidates p f d) = update_where p f (match_candidates d)"
  by (simp add: update_candidates_def)

lemma source_leads_update_source_lead:
  "source_leads (update_source_lead i f d) =
     update_where (\<lambda>l. sl_id l = i) (\<lambda>l. normalize_source_lead_fields (f l)) (source_leads d)"
  by (simp add: update_source_lead_def)

lemma insert_lead_match_Some:
  assumes "insert_lead_match lead fub mt conf det by byu attr d = Some (mid, d1)"
  shows "match_insert_ok d lead fub mt conf \<and> mid = next_uuid d \<and>
         lead_matches d1 = lead_matches d @
            [\<lparr>lm_id = next_uuid d, lm_source_lead_id = lead, lm_fub_lead_id = fub,
              lm_match_type = mt, lm_match_confidence = conf, lm_match_details = det,
              matched_by = by, matched_by_user_id = byu, attributed_agent_id = fst attr,
              attributed_team_id = snd attr, lm_status = Active\<rparr>] \<and>
         source_leads d1 = source_leads d \<and> match_candidates d1 = match_candidates d \<and>
         data_lineage d1 = data_lineage d \<and> fub_leads d1 = fub_leads d"
  using assms by (auto simp: insert_lead_match_def split: if_splits)

lemma insert_lead_match_None:
  "insert_lead_match lead fub mt conf det by byu attr d = None \<longleftrightarrow>
     \<not> match_insert_ok d lead fub mt conf"
  by (simp add: insert_lead_match_def)

text \<open>
  Claim C5 (as amended). \<open>approveCandidate\<close> does not look at the candidate's status.
  It fails, writing nothing, when no single candidate has the given id, and when the
  insert into \<open>lead_matches\<close> is rejected, which is the case in particular when a Match
  for the candidate's pair of lead and CRM lead exists already (so for an approved
  candidate whose Match is still there). Otherwise it succeeds, on a rejected or expired
  candidate as on a pending one: it appends an active manual Match for the pair with the
  candidate's score and the reviewer, sets the candidate to \<open>approved\<close> and the lead to
  \<open>matched\<close>.
\<close>

theorem approve_ignores_status:
  "(single (filter (\<lambda>c. mc_id c = cid) (match_candidates d)) = None \<longrightarrow>
      approveCandidate now d cid reviewer = Inl ''Candidate not found'') \<and>
   (single (filter (\<lambda>c. mc_id c = cid) (match_candidates d)) = Some c \<longrightarrow>
      (\<not> match_insert_ok d (mc_source_lead_id c) (mc_fub_lead_id c) ''manual''
            (confidence_score c) \<longrightarrow>
         approveCandidate now d cid reviewer = Inl ''Failed to create match'') \<and>
      (match_insert_ok d (mc_source_lead_id c) (mc_fub_lead_id c) ''manual''
            (confidence_score c) \<longrightarrow>
         succeeded (approveCandidate now d cid reviewer) \<and>
         (\<exists>m. lead_matches (db_after (approveCandidate now d cid reviewer) d) =
                 lead_matches d @ [m] \<and>
              lm_source_lead_id m = mc_source_lead_id c \<and>
              lm_fub_lead_id m = mc_fub_lead_id c \<and>
              lm_match_confidence m = confidence_score c \<and>
              matched_by m = ''manual'' \<and> matched_by_user_id m = Some reviewer \<and>
              lm_status m = Active) \<and>
         (\<forall>x \<in> set (match_candidates (db_after (approveCandidate now d cid reviewer) d)).
            mc_id x = cid \<longrightarrow> mc_status x = Approved) \<and>
         (\<forall>l \<in> set (source_leads (db_after (approveCandidate now d cid reviewer) d)).
            sl_id l = mc_source_lead_id c \<longrightarrow> sl_match_status l = Matched)))"
proof (intro conjI impI)
  assume "single (filter (\<lambda>c. mc_id c = cid) (match_candidates d)) = None"
  then show "approveCandidate now d cid reviewer = Inl ''Candidate not found''"
    by (simp add: approveCandidate_def)
next
  assume s: "single (filter (\<lambda>c. mc_id c = cid) (match_candidates d)) = Some c"
     and n: "\<not> match_insert_ok d (mc_source_lead_id c) (mc_fub_lead_id c) ''manual''
            (confidence_score c)"
  then show "approveCandidate now d cid reviewer = Inl ''Failed to create match''"
    by (simp add: approveCandidate_def insert_lead_match_def)
next
  assume s: "single (filter (\<lambda>c. mc_id c = cid) (match_candidates d)) = Some c"
     and ok: "match_insert_ok d (mc_source_lead_id c) (mc_fub_lead_id c) ''manual''
            (confidence_score c)"
  let ?out = "approveCandidate now d cid reviewer"
  obtain mid d1 where ins: "insert_lead_match (mc_source_lead_id c) (mc_fub_lead_id c)
                  ''manual'' (confidence_score c)
                  [(''approved_from_candidate'', ''true'')] ''manual'' (Some reviewer)
                  (resolve_attribution d (mc_fub_lead_id c)) d = Some (mid, d1)"
    using ok by (simp add: insert_lead_match_def)
  note d1 = insert_lead_match_Some[OF ins]
  let ?d' = "update_candidates
                   (\<lambda>x. mc_source_lead_id x = mc_source_lead_id c \<and>
                        mc_id x \<noteq> cid \<and> mc_status x = CPending)
                   (\<lambda>x. x\<lparr>mc_status := Rejected, reviewed_by := Some reviewer,
                          reviewed_at := Some now\<rparr>)
                   (update_source_lead (mc_source_lead_id c)
                      (\<lambda>l. l\<lparr>sl_match_status := Matched,
                             sl_match_confidence := Some (confidence_score c),
                             matched_at := Some now\<rparr>)
                      (update_candidates (\<lambda>x. mc_id x = cid)
                         (\<lambda>x. x\<lparr>mc_status := Approved, reviewed_by := Some reviewer,
                                reviewed_at := Some now, lead_match_id := Some mid\<rparr>)
                         d1))"
  have out: "?out = Inr (mid, ?d')"
    using s ins by (simp add: approveCandidate_def)
  show "succeeded ?out" by (simp add: out succeeded_def)
  have after: "db_after ?out d = ?d'" by (simp add: out db_after_def)
  show "\<exists>m. lead_matches (db_after ?out d) = lead_matches d @ [m] \<and>
              lm_source_lead_id m = mc_source_lead_id c \<and>
              lm_fub_lead_id m = mc_fub_lead_id c \<and>
              lm_match_confidence m = confidence_score c \<and>
              matched_by m = ''manual'' \<and> matched_by_user_id m = Some reviewer \<and>
              lm_status m = Active"
  proof -
    let ?m = "\<lparr>lm_id = next_uuid d, lm_source_lead_id = mc_source_lead_id c,
              lm_fub_lead_id = mc_fub_lead_id c, lm_match_type = ''manual'',
              lm_match_confidence = confidence_score c,
              lm_match_details = [(''approved_from_candidate'', ''true'')],
              matched_by = ''manual'', matched_by_user_id = Some reviewer,
              attributed_agent_id = fst (resolve_attribution d (mc_fub_lead_id c)),
              attributed_team_id = snd (resolve_attribution d (mc_fub_lead_id c)),
              lm_status = Active\<rparr>"
    have "lead_matches ?d' = lead_matches d1" by simp
    with d1 have "lead_matches (db_after ?out d) = lead_matches d @ [?m]"
      unfolding after by simp
    then show ?thesis by (intro exI[of _ ?m]) simp
  qed
  show "\<forall>x \<in> set (match_candidates (db_after ?out d)). mc_id x = cid \<longrightarrow> mc_status x = Approved"
  proof (intro ballI impI)
    fix x assume x: "x \<in> set (match_candidates (db_after ?out d))" "mc_id x = cid"
    let ?rej = "\<lambda>x. x\<lparr>mc_status := Rejected, reviewed_by := Some reviewer,
                          reviewed_at := Some now\<rparr>"
    let ?app = "\<lambda>x. x\<lparr>mc_status := Approved, reviewed_by := Some reviewer,
                                reviewed_at := Some now, lead_match_id := Some mid\<rparr>"
    let ?inner = "update_where (\<lambda>x. mc_id x = cid) ?app (match_candidates d1)"
    from x(1) have "x \<in> set (update_where (\<lambda>x. mc_source_lead_id x = mc_source_lead_id c \<and>
                        mc_id x \<noteq> cid \<and> mc_status x = CPending) ?rej ?inner)"
      unfolding after by simp
    then obtain y where y: "y \<in> set ?inner" "x = y \<or> (mc_id y \<noteq> cid \<and> x = ?rej y)"
      unfolding update_where_def by (auto split: if_splits)
    with x(2) have xy: "x = y" by auto
    from y(1) obtain z where "y = z \<and> mc_id z \<noteq> cid \<or> y = ?app z"
      unfolding update_where_def by (auto split: if_splits)
    with xy x(2) show "mc_status x = Approved" by auto
  qed
  show "\<forall>l \<in> set (source_leads (db_after ?out d)).
            sl_id l = mc_source_lead_id c \<longrightarrow> sl_match_status l = Matched"
  proof (intro ballI impI)
    fix l assume l: "l \<in> set (source_leads (db_after ?out d))" "sl_id l = mc_source_lead_id c"
    let ?f = "\<lambda>l. normalize_source_lead_fields (l\<lparr>sl_match_status := Matched,
                             sl_match_confidence := Some (confidence_score c),
                             matched_at := Some now\<rparr>)"
    have id: "sl_id (?f z) = sl_id z" for z by (simp add: normalize_source_lead_fields_def)
    from l(1) have "l \<in> set (update_where (\<lambda>l. sl_id l = mc_source_lead_id c) ?f (source_leads d1))"
      unfolding after by (simp add: source_leads_update_source_lead)
    then obtain z where "l = ?f z \<or> (sl_id z \<noteq> mc_source_lead_id c \<and> l = z)"
      unfolding update_where_def by (auto split: if_splits)
    with l(2) have "l = ?f z" by auto
    then show "sl_match_status l = Matched" by (simp add: normalize_source_lead_fields_def)
  qed
qed

theorem approve_ignores_status_witness:
  "single (filter (\<lambda>c. mc_id c = 101) (match_candidates after_first_approval)) =
     Some rejected_candidate \<and>
   mc_status rejected_candidate = Rejected \<and>
   match_insert_ok after_first_approval (mc_source_lead_id rejected_candidate)
     (mc_fub_lead_id rejected_candidate) ''manual'' (confidence_score rejected_candidate) \<and>
   succeeded (approveCandidate 7 after_first_approval 101 77)"
proof -
  have s: "single (filter (\<lambda>c. mc_id c = 101) (match_candidates after_first_approval)) =
     Some rejected_candidate" by code_simp
  have r: "mc_status rejected_candidate = Rejected" by code_simp
  have ok: "match_insert_ok after_first_approval (mc_source_lead_id rejected_candidate)
     (mc_fub_lead_id rejected_candidate) ''manual'' (confidence_score rejected_candidate)"
    by code_simp
  from approve_ignores_status[of 101 after_first_approval 7 77 rejected_candidate] s ok
  have "succeeded (approveCandidate 7 after_first_approval 101 77)" by blast
  with s r ok show ?thesis by blast
qed

text \<open>
  Claim C5 as stated fails: approving the candidate that the first approval had rejected
  succeeds, and leaves a second Match for the same lead.
\<close>

theorem approve_rejected_candidate_succeeds:
  "candidate_status_of after_first_approval 101 = [Rejected] \<and>
   succeeded (approveCandidate 7 after_first_approval 101 77) \<and>
   map lm_fub_lead_id (lead_matches after_first_approval) = [1] \<and>
   map lm_fub_lead_id (lead_matches after_second_approval) = [1, 2] \<and>
   candidate_status_of after_second_approval 101 = [Approved]"
  by code_simp

section \<open>Matcher: running it again on a matched lead\<close>

lemma untouched_refl: "untouched lead d d"
  by (simp add: untouched_def)

lemma untouched_trans:
  "untouched lead d d' \<Longrightarrow> untouched lead d' d'' \<Longrightarrow> untouched lead d d''"
  by (auto simp: untouched_def)

lemma untouched_update_source_lead:
  assumes "other \<noteq> lead"
  shows "untouched lead d (update_source_lead other f d)"
  using assms
  by (auto simp: untouched_def update_source_lead_def update_where_def matches_of_def
      lineage_of_def)

lemma untouched_mark_unmatched:
  "other \<noteq> lead \<Longrightarrow> untouched lead d (mark_unmatched now other d)"
  unfolding mark_unmatched_def by (rule untouched_update_source_lead)

lemma upsert_candidate_frame:
  "source_leads (upsert_candidate other d c) = source_leads d \<and>
   lead_matches (upsert_candidate other d c) = lead_matches d \<and>
   data_lineage (upsert_candidate other d c) = data_lineage d"
  by (simp add: upsert_candidate_def)

lemma fold_upsert_frame:
  "source_leads (foldl (upsert_candidate other) d cs) = source_leads d \<and>
   lead_matches (foldl (upsert_candidate other) d cs) = lead_matches d \<and>
   data_lineage (foldl (upsert_candidate other) d cs) = data_lineage d"
  by (induction cs arbitrary: d) (simp_all add: upsert_candidate_frame)

lemma untouched_upsert_candidates: "untouched lead d (upsert_candidates other cs d)"
  using fold_upsert_frame[of other d cs]
  by (simp add: untouched_def upsert_candidates_def matches_of_def lineage_of_def)

lemma untouched_open_review:
  assumes "other \<noteq> lead"
  shows "untouched lead d (snd (open_review other cs d))"
proof -
  have "untouched lead (upsert_candidates other cs d) (snd (open_review other cs d))"
    unfolding open_review_def snd_conv using assms by (rule untouched_update_source_lead)
  with untouched_upsert_candidates show ?thesis by (rule untouched_trans)
qed

lemma untouched_auto_match:
  assumes "other \<noteq> lead" "auto_match now d other a = Inr (r, d')"
  shows "untouched lead d d'"
proof -
  from assms(2) obtain mid d1 where ins: "insert_lead_match other (fub_lead_id a) (match_type a)
             (confidence a) (match_details a) ''system'' None
             (resolve_attribution d (fub_lead_id a)) d = Some (mid, d1)"
    and d': "d' = insert_lineage ''source_leads'' other ''lead_matches'' mid ''match''
                 ''system''
                 (update_source_lead other
                    (\<lambda>l. l\<lparr>sl_match_status := Matched,
                           sl_match_confidence := Some (confidence a),
                           matched_at := Some now\<rparr>) d1)"
    by (auto simp: auto_match_def split: option.splits)
  note i = insert_lead_match_Some[OF ins]
  have 1: "untouched lead d d1" using i assms(1)
    by (simp add: untouched_def matches_of_def lineage_of_def)
  have 2: "untouched lead d1 (update_source_lead other
                    (\<lambda>l. l\<lparr>sl_match_status := Matched,
                           sl_match_confidence := Some (confidence a),
                           matched_at := Some now\<rparr>) d1)"
    using assms(1) by (rule untouched_update_source_lead)
  have 3: "untouched lead x (insert_lineage ''source_leads'' other ''lead_matches'' mid ''match''
                 ''system'' x)" for x
    using assms(1) by (simp add: untouched_def insert_lineage_def matches_of_def lineage_of_def)
  show ?thesis unfolding d' using untouched_trans[OF untouched_trans[OF 1 2] 3] .
qed

lemma untouched_processMatches:
  assumes "other \<noteq> lead" "processMatches now d other ms org = Inr (r, d')"
  shows "untouched lead d d'"
proof (cases "ms = []")
  case True
  with assms show ?thesis by (auto simp: processMatches_def untouched_mark_unmatched)
next
  case False
  show ?thesis
  proof (cases "find (\<lambda>m. confidence m \<ge> AUTO_MATCH) ms")
    case (Some a)
    with False assms(2) have "auto_match now d other a = Inr (r, d')"
      by (simp add: processMatches_def)
    with assms(1) show ?thesis by (rule untouched_auto_match)
  next
    case None
    show ?thesis
    proof (cases "review_candidates ms = []")
      case True
      with None False assms show ?thesis
        by (auto simp: processMatches_def untouched_mark_unmatched)
    next
      case nonempty: False
      with None False assms(2) have "d' = snd (open_review other (review_candidates ms) d)"
        by (auto simp: processMatches_def)
      with assms(1) show ?thesis by (simp add: untouched_open_review)
    qed
  qed
qed

lemma untouched_match_lead:
  assumes "other \<noteq> lead"
  shows "untouched lead (fst acc) (fst (match_lead sim now acc other))"
proof (cases "single (filter (\<lambda>l. sl_id l = other) (source_leads (fst acc)))")
  case None
  then show ?thesis by (simp add: match_lead_def Let_def untouched_refl)
next
  case (Some sourceLead)
  show ?thesis
  proof (cases "processMatches now (fst acc) other (findMatches sim (fst acc) other)
                     (sl_organization_id sourceLead)")
    case (Inl e)
    with Some show ?thesis by (simp add: match_lead_def Let_def untouched_refl)
  next
    case (Inr p)
    obtain r d' where p: "p = (r, d')" by (cases p) auto
    from untouched_processMatches[OF assms Inr[unfolded p]] Some Inr p
    show ?thesis by (simp add: match_lead_def Let_def)
  qed
qed

lemma untouched_fold:
  assumes "lead \<notin> set ids"
  shows "untouched lead (fst acc) (fst (foldl (match_lead sim now) acc ids))"
  using assms
proof (induction ids arbitrary: acc)
  case Nil show ?case by (simp add: untouched_refl)
next
  case (Cons a ids)
  have 1: "untouched lead (fst acc) (fst (match_lead sim now acc a))"
    using Cons.prems by (intro untouched_match_lead) auto
  have 2: "untouched lead (fst (match_lead sim now acc a))
             (fst (foldl (match_lead sim now) (match_lead sim now acc a) ids))"
    using Cons.prems by (intro Cons.IH) auto
  show ?case using untouched_trans[OF 1 2] by simp
qed

lemma not_selected:
  assumes dist: "distinct (map sl_id (source_leads d))"
      and i: "i < length (source_leads d)"
      and st: "sl_match_status (source_leads d ! i) \<noteq> MPending"
      and mode: "source_lead_ids body = None \<or> source_lead_ids body = Some []"
  shows "sl_id (source_leads d ! i) \<notin> set (select_leads body d)"
proof
  let ?l = "source_leads d ! i"
  let ?sel = "filter (\<lambda>l. sl_match_status l = MPending \<and>
                             (case rq_organization_id body of
                                None \<Rightarrow> True
                              | Some org \<Rightarrow> sl_organization_id l = org))
                        (source_leads d)"
  assume "sl_id ?l \<in> set (select_leads body d)"
  then have "sl_id ?l \<in> set (take (js_or (batch_size body) 100) (map sl_id ?sel))"
    using mode by (auto simp: select_leads_def)
  then have "sl_id ?l \<in> set (map sl_id ?sel)" by (rule in_set_takeD)
  then obtain l' where l': "l' \<in> set (source_leads d)" "sl_match_status l' = MPending"
      "sl_id l' = sl_id ?l" by auto
  have "?l \<in> set (source_leads d)" using i by simp
  with l' dist have "l' = ?l" by (auto simp: distinct_map dest: inj_onD)
  with l'(2) st show False by simp
qed

lemma snd_case_swap: "snd (case x of (d', results) \<Rightarrow> (results, d')) = fst x"
  by (cases x) auto

text \<open>
  Claim C2 (as amended). When the matcher polls for work (no lead ids in the request), it
  selects leads in status \<open>pending\<close> only: a lead in status \<open>matched\<close> is not processed,
  and its row, its Match rows and its lineage rows are the same after the run (lead ids
  being unique). When the matcher is asked for a lead by id, it scores the lead again
  whatever its status; the run changes nothing at all when the first result at or above
  0.90 is the CRM lead the lead is already matched with, because the insert of the Match
  is then rejected.
\<close>

theorem matcher_rerun:
  "(distinct (map sl_id (source_leads d)) \<and> i < length (source_leads d) \<and>
    sl_match_status (source_leads d ! i) = Matched \<and>
    (source_lead_ids body = None \<or> source_lead_ids body = Some []) \<longrightarrow>
      untouched (sl_id (source_leads d ! i)) d (snd (lead_matcher sim now body d))) \<and>
   (single (filter (\<lambda>l. sl_id l = lead) (source_leads d)) = Some l \<and>
    find (\<lambda>m. confidence m \<ge> AUTO_MATCH) (findMatches sim d lead) = Some a \<and>
    list_ex (\<lambda>m. lm_source_lead_id m = lead \<and> lm_fub_lead_id m = fub_lead_id a)
      (lead_matches d) \<longrightarrow>
      snd (lead_matcher sim now
             \<lparr>source_lead_ids = Some [lead], rq_organization_id = org, batch_size = n\<rparr> d) = d)"
proof (intro conjI impI)
  assume a: "distinct (map sl_id (source_leads d)) \<and> i < length (source_leads d) \<and>
    sl_match_status (source_leads d ! i) = Matched \<and>
    (source_lead_ids body = None \<or> source_lead_ids body = Some [])"
  let ?zero = "\<lparr>c_processed = 0, c_matched = 0, c_unmatched = 0, c_review = 0, c_errors = 0\<rparr>"
  have "sl_id (source_leads d ! i) \<notin> set (select_leads body d)"
    using a by (intro not_selected) auto
  then have "untouched (sl_id (source_leads d ! i)) (fst (d, ?zero))
               (fst (foldl (match_lead sim now) (d, ?zero) (select_leads body d)))"
    by (rule untouched_fold)
  moreover have "snd (lead_matcher sim now body d) =
                   fst (foldl (match_lead sim now) (d, ?zero) (select_leads body d))"
    by (simp add: lead_matcher_def snd_case_swap)
  ultimately show "untouched (sl_id (source_leads d ! i)) d (snd (lead_matcher sim now body d))"
    by simp
next
  assume b: "single (filter (\<lambda>l. sl_id l = lead) (source_leads d)) = Some l \<and>
    find (\<lambda>m. confidence m \<ge> AUTO_MATCH) (findMatches sim d lead) = Some a \<and>
    list_ex (\<lambda>m. lm_source_lead_id m = lead \<and> lm_fub_lead_id m = fub_lead_id a)
      (lead_matches d)"
  then have ne: "findMatches sim d lead \<noteq> []" by auto
  have "\<not> match_insert_ok d lead (fub_lead_id a) (match_type a) (confidence a)"
    using b by (simp add: match_insert_ok_def)
  then have "auto_match now d lead a = Inl ''Failed to create match''"
    by (simp add: auto_match_def insert_lead_match_def)
  then have "processMatches now d lead (findMatches sim d lead) (sl_organization_id l) =
               Inl ''Failed to create match''"
    using b ne by (simp add: processMatches_def)
  then have "fst (match_lead sim now (d, r) lead) = d" for r
    using b by (simp add: match_lead_def Let_def)
  then show "snd (lead_matcher sim now
             \<lparr>source_lead_ids = Some [lead], rq_organization_id = org, batch_size = n\<rparr> d) = d"
    by (simp add: lead_matcher_def select_leads_def snd_case_swap)
qed

theorem matcher_rerun_witness:
  "distinct (map sl_id (source_leads after_auto_match)) \<and>
   0 < length (source_leads after_auto_match) \<and>
   sl_match_status (source_leads after_auto_match ! 0) = Matched \<and>
   sl_id (source_leads after_auto_match ! 0) = 10 \<and>
   untouched 10 after_auto_match
     (snd (lead_matcher trigram_similarity 9 poll_request after_auto_match)) \<and>
   map fub_lead_id (findMatches trigram_similarity after_auto_match 10) = [1, 2] \<and>
   map lm_fub_lead_id (lead_matches after_auto_match) = [1] \<and>
   snd (lead_matcher trigram_similarity 9 explicit_request after_auto_match) = after_auto_match"
proof -
  have d: "distinct (map sl_id (source_leads after_auto_match))" by code_simp
  have n: "0 < length (source_leads after_auto_match)" by code_simp
  have m: "sl_match_status (source_leads after_auto_match ! 0) = Matched" by code_simp
  have i: "sl_id (source_leads after_auto_match ! 0) = 10" by code_simp
  have p: "source_lead_ids poll_request = None \<or> source_lead_ids poll_request = Some []"
    by (simp add: poll_request_def)
  have s: "single (filter (\<lambda>l. sl_id l = 10) (source_leads after_auto_match)) =
             Some (source_leads after_auto_match ! 0)" by code_simp
  have f: "find (\<lambda>m. confidence m \<ge> AUTO_MATCH)
             (findMatches trigram_similarity after_auto_match 10) =
           Some (hd (findMatches trigram_similarity after_auto_match 10))" by code_simp
  have e: "list_ex (\<lambda>m. lm_source_lead_id m = 10 \<and>
                         lm_fub_lead_id m =
                           fub_lead_id (hd (findMatches trigram_similarity after_auto_match 10)))
             (lead_matches after_auto_match)" by code_simp
  have r: "map fub_lead_id (findMatches trigram_similarity after_auto_match 10) = [1, 2]"
    by code_simp
  have l: "map lm_fub_lead_id (lead_matches after_auto_match) = [1]" by code_simp
  note inst = matcher_rerun[of after_auto_match 0 poll_request trigram_similarity 9 10
      "source_leads after_auto_match ! 0"
      "hd (findMatches trigram_similarity after_auto_match 10)" None None]
  from inst d n m p
  have u: "untouched (sl_id (source_leads after_auto_match ! 0)) after_auto_match
             (snd (lead_matcher trigram_similarity 9 poll_request after_auto_match))"
    by blast
  from inst s f e
  have x: "snd (lead_matcher trigram_similarity 9
             \<lparr>source_lead_ids = Some [10], rq_organization_id = None, batch_size = None\<rparr>
             after_auto_match) = after_auto_match"
    by blast
  show ?thesis using d n m i u[unfolded i] r l x[folded explicit_request_def] by blast
qed

text \<open>
  Claim C2 as stated fails: the lead matched by the first approval above has one active
  Match; asking the matcher for it by id opens its two candidates again and moves the lead
  from \<open>matched\<close> to \<open>multiple\<close>.
\<close>

theorem matcher_rerun_alters_matched_lead:
  "lead_status after_first_approval 10 = [Matched] \<and>
   map lm_status (active_matches after_first_approval 10) = [Active] \<and>
   lead_status
     (snd (lead_matcher trigram_similarity 9 explicit_request after_first_approval)) 10 =
     [Multiple]"
  by code_simp

section \<open>Transformer: a second row with the same email\<close>

text \<open>
  Claim C9, evaluated on scenario 3. The parse leaves two valid raw rows, ids 3 and 4.
  The transformer creates canonical lead 5 from row 3. For row 4 it finds lead 5 and
  writes that lead's id, not the id of row 3, into \<open>duplicate_of\<close>; the column references
  \<open>raw_lead_rows(id)\<close> and 5 is no raw row, so the update is rejected and row 4 stays with
  \<open>is_duplicate = false\<close> and no \<open>duplicate_of\<close>. No canonical lead is created for
  row 4, and the batch counts one duplicate.
\<close>

theorem duplicate_row_keeps_no_back_pointer:
  "map row_state (raw_lead_rows dup_parsed_db) =
     [(3, True, False, None, None), (4, True, False, None, None)] \<and>
   map sl_id (source_leads dup_transformed_db) = [5] \<and>
   map raw_row_id (source_leads dup_transformed_db) = [Some 3] \<and>
   mark_duplicate 4 5 dup_transformed_db = dup_transformed_db \<and>
   map row_state (raw_lead_rows dup_transformed_db) =
     [(3, True, False, None, Some 5), (4, True, False, None, None)] \<and>
   map duplicate_rows (raw_ingestions dup_transformed_db) = [1] \<and>
   map valid_rows (raw_ingestions dup_transformed_db) = [2]"
  by code_simp

section \<open>The invariant under the matcher and the review resolver\<close>

lemma step_inv:
  assumes "lead_inv d" "step_on lead d d'"
  shows "lead_inv d'"
proof -
  from assms(2) obtain g where g: "\<forall>l. sl_id (g l) = sl_id l"
    and sl: "source_leads d' = update_where (\<lambda>l. sl_id l = lead) g (source_leads d)"
    and other: "\<forall>other. other \<noteq> lead \<longrightarrow>
             active_matches d' other = active_matches d other \<and>
             pending_candidates d' other = pending_candidates d other"
    and own: "\<forall>l \<in> set (source_leads d). sl_id l = lead \<longrightarrow> lead_ok d' (g l)"
    unfolding step_on_def by blast
  have ids: "map sl_id (source_leads d') = map sl_id (source_leads d)"
    unfolding sl update_where_def using g by (simp add: o_def if_distrib)
  have "lead_ok d' l'" if "l' \<in> set (source_leads d')" for l'
  proof -
    from that obtain l where l: "l \<in> set (source_leads d)"
        "(sl_id l = lead \<and> l' = g l) \<or> (sl_id l \<noteq> lead \<and> l' = l)"
      unfolding sl update_where_def by (auto split: if_splits)
    show ?thesis
    proof (cases "sl_id l = lead")
      case True with l own show ?thesis by auto
    next
      case False
      with l have l': "l' = l" by auto
      have "lead_ok d l" using assms(1) l(1) by (simp add: lead_inv_def)
      then show ?thesis using other False unfolding l' lead_ok_def by simp
    qed
  qed
  then show ?thesis using assms(1) ids by (simp add: lead_inv_def)
qed

lemma step_refl: "lead_inv d \<Longrightarrow> step_on lead d d"
  unfolding step_on_def
  by (rule exI[of _ "\<lambda>l. l"]) (auto simp: update_where_def lead_inv_def map_idI)

lemma step_rows:
  assumes "step_on lead d d'" "l' \<in> set (source_leads d')" "sl_id l' \<noteq> lead"
  shows "l' \<in> set (source_leads d)"
proof -
  from assms(1) obtain g where g: "\<forall>l. sl_id (g l) = sl_id l"
    and sl: "source_leads d' = update_where (\<lambda>l. sl_id l = lead) g (source_leads d)"
    unfolding step_on_def by blast
  from assms(2) obtain l where "l \<in> set (source_leads d)"
        "(sl_id l = lead \<and> l' = g l) \<or> (sl_id l \<noteq> lead \<and> l' = l)"
    unfolding sl update_where_def by (auto split: if_splits)
  with assms(3) g show ?thesis by auto
qed

lemma awaiting_no_active:
  assumes "lead_inv d" "awaiting d lead" "l \<in> set (source_leads d)" "sl_id l = lead"
  shows "active_matches d lead = []" "pending_candidates d lead = []"
proof -
  have ok: "lead_ok d l" using assms by (simp add: lead_inv_def)
  have st: "sl_match_status l = MPending" using assms by (simp add: awaiting_def)
  from ok st assms(4) have "length (active_matches d lead) \<le> 1" "length (active_matches d lead) \<noteq> 1"
    by (auto simp: lead_ok_def)
  then show "active_matches d lead = []" by (cases "active_matches d lead") auto
  from ok st assms(4) show "pending_candidates d lead = []" by (auto simp: lead_ok_def)
qed

lemma active_update_source_lead [simp]:
  "active_matches (update_source_lead i f d) x = active_matches d x"
  by (simp add: active_matches_def)

lemma pending_update_source_lead [simp]:
  "pending_candidates (update_source_lead i f d) x = pending_candidates d x"
  by (simp add: pending_candidates_def)

lemma step_set_status:
  assumes inv: "lead_inv d" and aw: "awaiting d lead"
      and st: "\<And>l. sl_match_status (f l) \<noteq> Matched \<and> sl_match_status (f l) \<noteq> MPending"
      and id: "\<And>l. sl_id (f l) = sl_id l"
  shows "step_on lead d (update_source_lead lead f d)"
  unfolding step_on_def
proof (intro exI[of _ "\<lambda>l. normalize_source_lead_fields (f l)"] conjI allI impI ballI)
  show "sl_id (normalize_source_lead_fields (f l)) = sl_id l" for l
    by (simp add: normalize_source_lead_fields_def id)
  show "source_leads (update_source_lead lead f d) =
          update_where (\<lambda>l. sl_id l = lead) (\<lambda>l. normalize_source_lead_fields (f l)) (source_leads d)"
    by (simp add: update_source_lead_def)
  show "active_matches (update_source_lead lead f d) other = active_matches d other" for other
    by simp
  show "pending_candidates (update_source_lead lead f d) other = pending_candidates d other" for other
    by simp
  fix l assume l: "l \<in> set (source_leads d)" "sl_id l = lead"
  from awaiting_no_active[OF inv aw l] st[of l]
  show "lead_ok (update_source_lead lead f d) (normalize_source_lead_fields (f l))"
    by (simp add: lead_ok_def normalize_source_lead_fields_def id l)
qed

lemma filter_map_same:
  "(\<And>x. x \<in> set xs \<Longrightarrow> P (h x) = P x \<and> (P x \<longrightarrow> h x = x)) \<Longrightarrow>
   filter P (map h xs) = filter P xs"
  by (induction xs) auto

lemma pending_upsert_other:
  assumes "other \<noteq> lead"
  shows "pending_candidates (upsert_candidate lead d c) other = pending_candidates d other"
proof (cases "list_ex (\<lambda>r. mc_source_lead_id r = lead \<and> mc_fub_lead_id r = fub_lead_id c)
                (match_candidates d)")
  case True
  have "filter (\<lambda>x. mc_source_lead_id x = other \<and> mc_status x = CPending)
          (map (\<lambda>r. if mc_source_lead_id r = lead \<and> mc_fub_lead_id r = fub_lead_id c
                     then r\<lparr>confidence_score := confidence c, match_reasons := [reason_of c]\<rparr>
                     else r) (match_candidates d)) =
        filter (\<lambda>x. mc_source_lead_id x = other \<and> mc_status x = CPending) (match_candidates d)"
    by (rule filter_map_same) (use assms in auto)
  then show ?thesis using True
    by (simp add: pending_candidates_def upsert_candidate_def update_where_def)
next
  case False
  then show ?thesis using assms
    by (simp add: pending_candidates_def upsert_candidate_def)
qed

lemma pending_fold_upsert_other:
  "other \<noteq> lead \<Longrightarrow>
   pending_candidates (foldl (upsert_candidate lead) d cs) other = pending_candidates d other"
  by (induction cs arbitrary: d) (simp_all add: pending_upsert_other)

lemma pending_upsert_candidates_other:
  "other \<noteq> lead \<Longrightarrow>
   pending_candidates (upsert_candidates lead cs d) other = pending_candidates d other"
  by (simp add: upsert_candidates_def pending_fold_upsert_other)

lemma upsert_candidates_frame:
  "source_leads (upsert_candidates lead cs d) = source_leads d \<and>
   lead_matches (upsert_candidates lead cs d) = lead_matches d"
  using fold_upsert_frame[of lead d cs] by (simp add: upsert_candidates_def)

lemma active_upsert_candidates [simp]:
  "active_matches (upsert_candidates lead cs d) x = active_matches d x"
  by (simp add: active_matches_def upsert_candidates_frame)

lemma step_mark_unmatched:
  "lead_inv d \<Longrightarrow> awaiting d lead \<Longrightarrow> step_on lead d (mark_unmatched now lead d)"
  unfolding mark_unmatched_def by (rule step_set_status) simp_all

lemma step_open_review:
  assumes inv: "lead_inv d" and aw: "awaiting d lead"
  shows "step_on lead d (snd (open_review lead cs d))"
  unfolding step_on_def
proof (intro exI[of _ "\<lambda>l. normalize_source_lead_fields
           (l\<lparr>sl_match_status := (if length cs > 1 then Multiple else Review),
               sl_match_confidence :=
                 Some (fold max (tl (map confidence cs)) (hd (map confidence cs)))\<rparr>)"]
      conjI allI impI ballI)
  let ?d' = "snd (open_review lead cs d)"
  show "sl_id (normalize_source_lead_fields
           (l\<lparr>sl_match_status := (if length cs > 1 then Multiple else Review),
               sl_match_confidence :=
                 Some (fold max (tl (map confidence cs)) (hd (map confidence cs)))\<rparr>)) = sl_id l"
    for l by (simp add: normalize_source_lead_fields_def)
  show "source_leads ?d' = update_where (\<lambda>l. sl_id l = lead)
          (\<lambda>l. normalize_source_lead_fields
           (l\<lparr>sl_match_status := (if length cs > 1 then Multiple else Review),
               sl_match_confidence :=
                 Some (fold max (tl (map confidence cs)) (hd (map confidence cs)))\<rparr>))
          (source_leads d)"
    by (simp add: open_review_def update_source_lead_def upsert_candidates_frame)
  show "active_matches ?d' other = active_matches d other" for other
    by (simp add: open_review_def)
  show "pending_candidates ?d' other = pending_candidates d other" if "other \<noteq> lead" for other
    using that by (simp add: open_review_def pending_upsert_candidates_other)
  fix l assume l: "l \<in> set (source_leads d)" "sl_id l = lead"
  have "active_matches ?d' lead = []"
    using awaiting_no_active(1)[OF inv aw l] by (simp add: open_review_def)
  then show "lead_ok ?d' (normalize_source_lead_fields
           (l\<lparr>sl_match_status := (if length cs > 1 then Multiple else Review),
               sl_match_confidence :=
                 Some (fold max (tl (map confidence cs)) (hd (map confidence cs)))\<rparr>))"
    by (simp add: lead_ok_def normalize_source_lead_fields_def l)
qed

lemma active_insert_lineage [simp]:
  "active_matches (insert_lineage a b c e f g d) x = active_matches d x"
  by (simp add: active_matches_def insert_lineage_def)

lemma pending_insert_lineage [simp]:
  "pending_candidates (insert_lineage a b c e f g d) x = pending_candidates d x"
  by (simp add: pending_candidates_def insert_lineage_def)

lemma source_leads_insert_lineage [simp]:
  "source_leads (insert_lineage a b c e f g d) = source_leads d"
  by (simp add: insert_lineage_def)

lemma insert_active:
  assumes "insert_lead_match lead fub mt conf det by byu attr d = Some (mid, d1)"
  shows "active_matches d1 lead = active_matches d lead @
            [\<lparr>lm_id = next_uuid d, lm_source_lead_id = lead, lm_fub_lead_id = fub,
              lm_match_type = mt, lm_match_confidence = conf, lm_match_details = det,
              matched_by = by, matched_by_user_id = byu, attributed_agent_id = fst attr,
              attributed_team_id = snd attr, lm_status = Active\<rparr>]"
    and "other \<noteq> lead \<Longrightarrow> active_matches d1 other = active_matches d other"
    and "pending_candidates d1 x = pending_candidates d x"
    and "lead \<in> set (map sl_id (source_leads d))"
  using insert_lead_match_Some[OF assms]
  by (simp_all add: active_matches_def pending_candidates_def match_insert_ok_def)

lemma step_auto_match:
  assumes inv: "lead_inv d" and aw: "awaiting d lead"
      and run: "auto_match now d lead a = Inr (r, d')"
  shows "step_on lead d d'"
proof -
  let ?f = "\<lambda>l. normalize_source_lead_fields
               (l\<lparr>sl_match_status := Matched, sl_match_confidence := Some (confidence a),
                   matched_at := Some now\<rparr>)"
  from run obtain mid d1 where ins: "insert_lead_match lead (fub_lead_id a) (match_type a)
             (confidence a) (match_details a) ''system'' None
             (resolve_attribution d (fub_lead_id a)) d = Some (mid, d1)"
    and d': "d' = insert_lineage ''source_leads'' lead ''lead_matches'' mid ''match''
                 ''system''
                 (update_source_lead lead
                    (\<lambda>l. l\<lparr>sl_match_status := Matched,
                           sl_match_confidence := Some (confidence a),
                           matched_at := Some now\<rparr>) d1)"
    by (auto simp: auto_match_def split: option.splits)
  note i = insert_lead_match_Some[OF ins]
  note act = insert_active[OF ins]
  show ?thesis unfolding step_on_def
  proof (intro exI[of _ ?f] conjI allI impI ballI)
    show "sl_id (?f l) = sl_id l" for l by (simp add: normalize_source_lead_fields_def)
    show "source_leads d' = update_where (\<lambda>l. sl_id l = lead) ?f (source_leads d)"
      using i by (simp add: d' update_source_lead_def)
    show "active_matches d' other = active_matches d other" if "other \<noteq> lead" for other
      using act(2)[OF that] by (simp add: d')
    show "pending_candidates d' other = pending_candidates d other" for other
      using act(3) by (simp add: d')
    fix l assume l: "l \<in> set (source_leads d)" "sl_id l = lead"
    have "active_matches d' lead = active_matches d1 lead" by (simp add: d')
    then have a1: "length (active_matches d' lead) = 1"
      using act(1) awaiting_no_active(1)[OF inv aw l] by simp
    have "pending_candidates d' lead = []"
      using act(3) awaiting_no_active(2)[OF inv aw l] by (simp add: d')
    with a1 show "lead_ok d' (?f l)"
      by (simp add: lead_ok_def normalize_source_lead_fields_def l)
  qed
qed

lemma step_processMatches:
  assumes inv: "lead_inv d" and aw: "awaiting d lead"
      and run: "processMatches now d lead ms org = Inr (r, d')"
  shows "step_on lead d d'"
proof (cases "ms = []")
  case True
  with run have "d' = mark_unmatched now lead d" by (simp add: processMatches_def)
  then show ?thesis using step_mark_unmatched[OF inv aw] by simp
next
  case False
  show ?thesis
  proof (cases "find (\<lambda>m. confidence m \<ge> AUTO_MATCH) ms")
    case (Some a)
    with False run have "auto_match now d lead a = Inr (r, d')" by (simp add: processMatches_def)
    with inv aw show ?thesis by (rule step_auto_match)
  next
    case None
    show ?thesis
    proof (cases "review_candidates ms = []")
      case True
      with None False run have "d' = mark_unmatched now lead d" by (simp add: processMatches_def)
      then show ?thesis using step_mark_unmatched[OF inv aw] by simp
    next
      case nonempty: False
      with None False run have "d' = snd (open_review lead (review_candidates ms) d)"
        by (auto simp: processMatches_def)
      then show ?thesis using step_open_review[OF inv aw] by simp
    qed
  qed
qed

lemma step_match_lead:
  assumes inv: "lead_inv (fst acc)" and aw: "awaiting (fst acc) lead"
  shows "step_on lead (fst acc) (fst (match_lead sim now acc lead))"
proof (cases "single (filter (\<lambda>l. sl_id l = lead) (source_leads (fst acc)))")
  case None
  then show ?thesis using step_refl[OF inv] by (simp add: match_lead_def Let_def)
next
  case (Some sourceLead)
  show ?thesis
  proof (cases "processMatches now (fst acc) lead (findMatches sim (fst acc) lead)
                     (sl_organization_id sourceLead)")
    case (Inl e)
    with Some show ?thesis using step_refl[OF inv] by (simp add: match_lead_def Let_def)
  next
    case (Inr p)
    obtain r d' where p: "p = (r, d')" by (cases p) auto
    from step_processMatches[OF inv aw Inr[unfolded p]] Some Inr p
    show ?thesis by (simp add: match_lead_def Let_def)
  qed
qed

lemma awaiting_after_step:
  assumes "step_on a d d'" "awaiting d lead" "lead \<noteq> a"
  shows "awaiting d' lead"
  unfolding awaiting_def
proof (intro ballI impI)
  fix l' assume "l' \<in> set (source_leads d')" "sl_id l' = lead"
  with step_rows[OF assms(1), of l'] assms(3) have "l' \<in> set (source_leads d)" by auto
  with assms(2) \<open>sl_id l' = lead\<close> show "sl_match_status l' = MPending"
    by (simp add: awaiting_def)
qed

lemma fold_inv:
  assumes "lead_inv (fst acc)" "distinct ids" "\<forall>lead \<in> set ids. awaiting (fst acc) lead"
  shows "lead_inv (fst (foldl (match_lead sim now) acc ids))"
  using assms
proof (induction ids arbitrary: acc)
  case Nil then show ?case by simp
next
  case (Cons a ids)
  let ?acc' = "match_lead sim now acc a"
  have "awaiting (fst acc) a" using Cons.prems(3) by simp
  with Cons.prems(1) have st: "step_on a (fst acc) (fst ?acc')"
    by (rule step_match_lead)
  have 1: "lead_inv (fst ?acc')" using Cons.prems(1) st by (rule step_inv)
  have 2: "distinct ids" using Cons.prems(2) by simp
  have 3: "\<forall>lead \<in> set ids. awaiting (fst ?acc') lead"
  proof
    fix lead assume l: "lead \<in> set ids"
    with Cons.prems(2) have ne: "lead \<noteq> a" by auto
    have aw: "awaiting (fst acc) lead" using Cons.prems(3) l by simp
    show "awaiting (fst ?acc') lead" using st aw ne by (rule awaiting_after_step)
  qed
  show ?case using Cons.IH[OF 1 2 3] by simp
qed

lemma selected_awaiting:
  assumes dist: "distinct (map sl_id (source_leads d))"
      and mode: "source_lead_ids body = None \<or> source_lead_ids body = Some []"
  shows "distinct (select_leads body d) \<and> (\<forall>lead \<in> set (select_leads body d). awaiting d lead)"
proof -
  let ?P = "\<lambda>l. sl_match_status l = MPending \<and>
                             (case rq_organization_id body of
                                None \<Rightarrow> True
                              | Some org \<Rightarrow> sl_organization_id l = org)"
  have sel: "select_leads body d =
               take (js_or (batch_size body) 100) (map sl_id (filter ?P (source_leads d)))"
    using mode by (auto simp: select_leads_def)
  have "distinct (map sl_id (filter ?P (source_leads d)))"
    using dist by (rule distinct_map_filter)
  then have 1: "distinct (select_leads body d)" unfolding sel by (rule distinct_take)
  have 2: "awaiting d lead" if "lead \<in> set (select_leads body d)" for lead
    unfolding awaiting_def
  proof (intro ballI impI)
    fix l assume l: "l \<in> set (source_leads d)" "sl_id l = lead"
    from that have "lead \<in> set (map sl_id (filter ?P (source_leads d)))"
      unfolding sel by (rule in_set_takeD)
    then obtain l' where l': "l' \<in> set (source_leads d)" "sl_match_status l' = MPending"
        "sl_id l' = lead" by auto
    with l dist have "l' = l" by (auto simp: distinct_map dest: inj_onD)
    with l'(2) show "sl_match_status l = MPending" by simp
  qed
  from 1 2 show ?thesis by blast
qed

lemma approve_inv:
  assumes inv: "lead_inv d"
      and s: "single (filter (\<lambda>c. mc_id c = cid) (match_candidates d)) = Some c"
      and pend: "mc_status c = CPending"
  shows "lead_inv (db_after (approveCandidate now d cid reviewer) d)"
proof (cases "match_insert_ok d (mc_source_lead_id c) (mc_fub_lead_id c) ''manual''
            (confidence_score c)")
  case False
  with s have "approveCandidate now d cid reviewer = Inl ''Failed to create match''"
    by (simp add: approveCandidate_def insert_lead_match_def)
  then show ?thesis using inv by (simp add: db_after_def)
next
  case True
  let ?lead = "mc_source_lead_id c"
  obtain mid d1 where ins: "insert_lead_match ?lead (mc_fub_lead_id c)
                  ''manual'' (confidence_score c)
                  [(''approved_from_candidate'', ''true'')] ''manual'' (Some reviewer)
                  (resolve_attribution d (mc_fub_lead_id c)) d = Some (mid, d1)"
    using True by (simp add: insert_lead_match_def)
  note i = insert_lead_match_Some[OF ins]
  note act = insert_active[OF ins]
  let ?app = "\<lambda>x. x\<lparr>mc_status := Approved, reviewed_by := Some reviewer,
                         reviewed_at := Some now, lead_match_id := Some mid\<rparr>"
  let ?rej = "\<lambda>x. x\<lparr>mc_status := Rejected, reviewed_by := Some reviewer,
                          reviewed_at := Some now\<rparr>"
  let ?h = "\<lambda>x. if mc_id x = cid then ?app x
                else if mc_source_lead_id x = ?lead \<and> mc_status x = CPending then ?rej x
                else x"
  let ?f = "\<lambda>l. normalize_source_lead_fields
               (l\<lparr>sl_match_status := Matched,
                   sl_match_confidence := Some (confidence_score c),
                   matched_at := Some now\<rparr>)"
  let ?d' = "update_candidates
                   (\<lambda>x. mc_source_lead_id x = ?lead \<and> mc_id x \<noteq> cid \<and> mc_status x = CPending)
                   ?rej
                   (update_source_lead ?lead
                      (\<lambda>l. l\<lparr>sl_match_status := Matched,
                             sl_match_confidence := Some (confidence_score c),
                             matched_at := Some now\<rparr>)
                      (update_candidates (\<lambda>x. mc_id x = cid) ?app d1))"
  have after: "db_after (approveCandidate now d cid reviewer) d = ?d'"
    using s ins by (simp add: approveCandidate_def db_after_def)
  have hx: "(if mc_source_lead_id (if mc_id x = cid then ?app x else x) = ?lead \<and>
                 mc_id (if mc_id x = cid then ?app x else x) \<noteq> cid \<and>
                 mc_status (if mc_id x = cid then ?app x else x) = CPending
              then ?rej (if mc_id x = cid then ?app x else x)
              else (if mc_id x = cid then ?app x else x)) = ?h x"
    for x :: match_candidate
    by (cases "mc_id x = cid") simp_all
  have "match_candidates ?d' =
          update_where (\<lambda>x. mc_source_lead_id x = ?lead \<and> mc_id x \<noteq> cid \<and> mc_status x = CPending)
            ?rej (update_where (\<lambda>x. mc_id x = cid) ?app (match_candidates d))"
    using i by simp
  also have "\<dots> = map ?h (match_candidates d)"
    unfolding update_where_def map_map o_def by (rule map_cong[OF refl]) (rule hx)
  finally have cands: "match_candidates ?d' = map ?h (match_candidates d)" .
  have lm: "lead_matches ?d' = lead_matches d1" by simp
  have c_in: "c \<in> set (match_candidates d)" "mc_id c = cid"
  proof -
    from s have "filter (\<lambda>c. mc_id c = cid) (match_candidates d) = [c]"
      by (auto simp: single_def split: list.splits)
    then have "c \<in> set (filter (\<lambda>c. mc_id c = cid) (match_candidates d))" by simp
    then show "c \<in> set (match_candidates d)" "mc_id c = cid" by auto
  qed
  have only_c: "x = c" if "x \<in> set (match_candidates d)" "mc_id x = cid" for x
  proof -
    from s have "filter (\<lambda>c. mc_id c = cid) (match_candidates d) = [c]"
      by (auto simp: single_def split: list.splits)
    moreover from that have "x \<in> set (filter (\<lambda>c. mc_id c = cid) (match_candidates d))" by simp
    ultimately show ?thesis by simp
  qed
  have pend_ne: "pending_candidates d ?lead \<noteq> []"
    using c_in pend by (auto simp: pending_candidates_def filter_empty_conv)
  have step: "step_on ?lead d ?d'" unfolding step_on_def
  proof (intro exI[of _ ?f] conjI allI impI ballI)
    show "sl_id (?f l) = sl_id l" for l by (simp add: normalize_source_lead_fields_def)
    show "source_leads ?d' = update_where (\<lambda>l. sl_id l = ?lead) ?f (source_leads d)"
      using i by (simp add: update_source_lead_def update_candidates_def)
    show "active_matches ?d' other = active_matches d other" if "other \<noteq> ?lead" for other
      using act(2)[OF that] by (simp add: active_matches_def)
    show "pending_candidates ?d' other = pending_candidates d other"
      if o: "other \<noteq> ?lead" for other
    proof -
      have "filter (\<lambda>x. mc_source_lead_id x = other \<and> mc_status x = CPending)
              (map ?h (match_candidates d)) =
            filter (\<lambda>x. mc_source_lead_id x = other \<and> mc_status x = CPending)
              (match_candidates d)"
      proof (rule filter_map_same)
        fix x assume x: "x \<in> set (match_candidates d)"
        show "(mc_source_lead_id (?h x) = other \<and> mc_status (?h x) = CPending) =
                (mc_source_lead_id x = other \<and> mc_status x = CPending) \<and>
              (mc_source_lead_id x = other \<and> mc_status x = CPending \<longrightarrow> ?h x = x)"
        proof (cases "mc_id x = cid")
          case True
          with only_c[OF x] have "mc_source_lead_id x = ?lead" by simp
          with True o show ?thesis by simp
        next
          case False
          show ?thesis
          proof (cases "mc_source_lead_id x = ?lead")
            case True with False o show ?thesis by simp
          next
            case other: False with False show ?thesis by simp
          qed
        qed
      qed
      then show ?thesis unfolding pending_candidates_def cands .
    qed
    fix l assume l: "l \<in> set (source_leads d)" "sl_id l = ?lead"
    have ok: "lead_ok d l" using inv l by (simp add: lead_inv_def)
    with pend_ne l(2) have "sl_match_status l \<noteq> Matched" by (auto simp: lead_ok_def)
    with ok l(2) have "length (active_matches d ?lead) \<le> 1" "length (active_matches d ?lead) \<noteq> 1"
      by (auto simp: lead_ok_def)
    then have "active_matches d ?lead = []" by (cases "active_matches d ?lead") auto
    moreover have "active_matches ?d' ?lead = active_matches d1 ?lead"
      by (simp add: active_matches_def)
    ultimately have a1: "length (active_matches ?d' ?lead) = 1" using act(1) by simp
    have nh: "\<not> (mc_source_lead_id (?h x) = ?lead \<and> mc_status (?h x) = CPending)"
      for x :: match_candidate
      by (cases "mc_id x = cid") simp_all
    have "filter (\<lambda>x. mc_source_lead_id x = ?lead \<and> mc_status x = CPending)
              (map ?h (match_candidates d)) = []"
      unfolding filter_empty_conv using nh by (simp only: set_map) blast
    then have "pending_candidates ?d' ?lead = []" unfolding pending_candidates_def cands .
    with a1 show "lead_ok ?d' (?f l)"
      by (simp add: lead_ok_def normalize_source_lead_fields_def l)
  qed
  show ?thesis unfolding after using inv step by (rule step_inv)
qed

lemma fresh_inv:
  assumes "distinct (map sl_id (source_leads d))" "lead_matches d = []"
      "match_candidates d = []" "\<forall>l \<in> set (source_leads d). sl_match_status l = MPending"
  shows "lead_inv d"
  using assms by (simp add: lead_inv_def lead_ok_def active_matches_def pending_candidates_def)

lemma matcher_inv:
  assumes inv: "lead_inv d" and di: "distinct (select_leads body d)"
      and aw: "\<forall>lead \<in> set (select_leads body d). awaiting d lead"
  shows "lead_inv (snd (lead_matcher sim now body d))"
proof -
  let ?zero = "\<lparr>c_processed = 0, c_matched = 0, c_unmatched = 0, c_review = 0, c_errors = 0\<rparr>"
  have "lead_inv (fst (foldl (match_lead sim now) (d, ?zero) (select_leads body d)))"
    by (rule fold_inv) (use inv di aw in simp_all)
  then show ?thesis by (simp add: lead_matcher_def snd_case_swap)
qed

text \<open>
  Claim C1 (as amended). The invariant \<open>lead_inv\<close> holds when no lead has been matched
  yet, and it is kept by every matcher run that polls for pending leads, by every matcher
  run on distinct lead ids whose leads are still \<open>pending\<close> (the run the transformer
  requests for the leads it created), and by every approval of a candidate that is
  \<open>pending\<close>. In every state with the invariant each lead has at most one active Match
  and is in status \<open>matched\<close> exactly when it has exactly one. A matcher run by id on a
  lead that is not \<open>pending\<close> and an approval of a candidate that is not \<open>pending\<close>, both
  of which the code accepts, are outside this statement.
\<close>

theorem pipeline_invariant:
  "(distinct (map sl_id (source_leads d)) \<and> lead_matches d = [] \<and> match_candidates d = [] \<and>
    (\<forall>l \<in> set (source_leads d). sl_match_status l = MPending) \<longrightarrow> lead_inv d) \<and>
   (lead_inv d \<and> (source_lead_ids body = None \<or> source_lead_ids body = Some []) \<longrightarrow>
      lead_inv (snd (lead_matcher sim now body d))) \<and>
   (lead_inv d \<and> source_lead_ids body = Some ids \<and> ids \<noteq> [] \<and> distinct ids \<and>
    (\<forall>lead \<in> set ids. awaiting d lead) \<longrightarrow>
      lead_inv (snd (lead_matcher sim now body d))) \<and>
   (lead_inv d \<and> single (filter (\<lambda>c. mc_id c = cid) (match_candidates d)) = Some c \<and>
    mc_status c = CPending \<longrightarrow>
      lead_inv (db_after (approveCandidate now d cid reviewer) d)) \<and>
   (lead_inv d \<longrightarrow>
      (\<forall>l \<in> set (source_leads d).
         length (active_matches d (sl_id l)) \<le> 1 \<and>
         (sl_match_status l = Matched \<longleftrightarrow> length (active_matches d (sl_id l)) = 1)))"
proof (intro conjI impI)
  assume "distinct (map sl_id (source_leads d)) \<and> lead_matches d = [] \<and>
          match_candidates d = [] \<and> (\<forall>l \<in> set (source_leads d). sl_match_status l = MPending)"
  then show "lead_inv d" by (intro fresh_inv) simp_all
next
  assume a: "lead_inv d \<and> (source_lead_ids body = None \<or> source_lead_ids body = Some [])"
  then have "distinct (map sl_id (source_leads d))" by (simp add: lead_inv_def)
  from selected_awaiting[OF this, of body] a
  show "lead_inv (snd (lead_matcher sim now body d))" by (intro matcher_inv) simp_all
next
  assume a: "lead_inv d \<and> source_lead_ids body = Some ids \<and> ids \<noteq> [] \<and> distinct ids \<and>
    (\<forall>lead \<in> set ids. awaiting d lead)"
  then have "select_leads body d = ids" by (simp add: select_leads_def)
  with a show "lead_inv (snd (lead_matcher sim now body d))" by (intro matcher_inv) simp_all
next
  assume "lead_inv d \<and> single (filter (\<lambda>c. mc_id c = cid) (match_candidates d)) = Some c \<and>
    mc_status c = CPending"
  then have i: "lead_inv d"
    and s: "single (filter (\<lambda>c. mc_id c = cid) (match_candidates d)) = Some c"
    and p: "mc_status c = CPending" by simp_all
  from i s p show "lead_inv (db_after (approveCandidate now d cid reviewer) d)"
    by (rule approve_inv)
next
  assume "lead_inv d"
  then show "\<forall>l \<in> set (source_leads d).
         length (active_matches d (sl_id l)) \<le> 1 \<and>
         (sl_match_status l = Matched \<longleftrightarrow> length (active_matches d (sl_id l)) = 1)"
    by (simp add: lead_inv_def lead_ok_def)
qed

theorem pipeline_invariant_witness:
  "lead_inv double_db \<and> lead_inv after_matching \<and>
   single (filter (\<lambda>c. mc_id c = 100) (match_candidates after_matching)) =
     Some first_candidate \<and>
   mc_status first_candidate = CPending \<and>
   lead_inv after_first_approval \<and>
   lead_status after_first_approval 10 = [Matched] \<and>
   length (active_matches after_first_approval 10) = 1"
proof -
  have f: "distinct (map sl_id (source_leads double_db)) \<and> lead_matches double_db = [] \<and>
           match_candidates double_db = [] \<and>
           (\<forall>l \<in> set (source_leads double_db). sl_match_status l = MPending)"
    by (simp add: double_db_def empty_db_def new_lead_def)
  have p: "source_lead_ids poll_request = None \<or> source_lead_ids poll_request = Some []"
    by (simp add: poll_request_def)
  have s: "single (filter (\<lambda>c. mc_id c = 100) (match_candidates after_matching)) =
             Some first_candidate" by code_simp
  have c: "mc_status first_candidate = CPending" by code_simp
  have st: "lead_status after_first_approval 10 = [Matched]" by code_simp
  have n: "length (active_matches after_first_approval 10) = 1" by code_simp
  from pipeline_invariant[of double_db poll_request trigram_similarity 5 "[]" 0 first_candidate 0] f
  have i0: "lead_inv double_db" by blast
  from pipeline_invariant[of double_db poll_request trigram_similarity 5 "[]" 0 first_candidate 0]
    i0 p
  have "lead_inv (snd (lead_matcher trigram_similarity 5 poll_request double_db))" by blast
  then have i1: "lead_inv after_matching" by (simp only: after_matching_def)
  from pipeline_invariant[of after_matching poll_request trigram_similarity 6 "[]" 100
      first_candidate 77] i1 s c
  have "lead_inv (db_after (approveCandidate 6 after_matching 100 77) after_matching)" by blast
  then have i2: "lead_inv after_first_approval" by (simp only: after_first_approval_def)
  show ?thesis using i0 i1 s c i2 st n by blast
qed

text \<open>
  Claim C1 as stated fails: matcher and approvals alone reach a state in which a lead has
  two active Matches. After the first approval the second candidate is \<open>rejected\<close>;
  approving it nevertheless succeeds and adds a second active Match for lead 10.
\<close>

theorem two_active_matches_reachable:
  "map lm_fub_lead_id (active_matches after_second_approval 10) = [1, 2] \<and>
   length (active_matches after_second_approval 10) = 2 \<and>
   lead_status after_second_approval 10 = [Matched]"
  by code_simp

end
